theory Spec2Isabelle
  imports Complex_Main "HOL-Library.Word"
begin

unbundle bit_operations_syntax

text \<open>
  The bridge of \<^verbatim>\<open>voice.py\<close> between a telephony media stream and a realtime AI session:
  the four codec functions, the inbound pump \<^verbatim>\<open>twilio_to_openai\<close>, the outbound pump
  \<^verbatim>\<open>openai_to_twilio\<close> and the handler \<^verbatim>\<open>media_stream\<close> that sets them up. Each pump
  is a step function on the variables the two closures share, run over the messages
  received so far; what a pump writes is the trace it returns, and an exception is a
  value.
\<close>

section \<open>Values that cross the two sockets\<close>

text \<open>
  Both sockets carry JSON text. A received text is modelled by the value
  \<^verbatim>\<open>json.loads\<close> makes of it: a dict is the association list of its keys (looked up
  with \<open>map_of\<close>), Python's \<^verbatim>\<open>None\<close> is \<open>JNull\<close>. Only the truth value of a number is
  ever read by the bridge.
\<close>

datatype json =
    JNull
  | JBool bool
  | JNum real
  | JStr string
  | JArr "json list"
  | JObj "(string \<times> json) list"

text \<open>The Python exceptions the bridge can raise while it handles one message.\<close>

datatype error =
    KeyError
  | TypeError
  | AttributeError
  | ValueError
  | JSONDecodeError
  | WebSocketDisconnect

type_synonym byte = "8 word"
type_synonym int16 = "16 word"

text \<open>\<^verbatim>\<open>d.get(k)\<close>: only a dict has the method; a missing key gives \<^verbatim>\<open>None\<close>.\<close>

fun py_get :: "json \<Rightarrow> string \<Rightarrow> error + json" where
  "py_get (JObj kvs) k = Inr (case map_of kvs k of None \<Rightarrow> JNull | Some v \<Rightarrow> v)"
| "py_get _ k = Inl AttributeError"

text \<open>
  \<^verbatim>\<open>d[k]\<close> with a string key: a dict raises \<^verbatim>\<open>KeyError\<close> on a missing key; a list, a
  string, a number, a bool or \<^verbatim>\<open>None\<close> raises \<^verbatim>\<open>TypeError\<close>.
\<close>

fun py_item :: "json \<Rightarrow> string \<Rightarrow> error + json" where
  "py_item (JObj kvs) k = (case map_of kvs k of None \<Rightarrow> Inl KeyError | Some v \<Rightarrow> Inr v)"
| "py_item _ k = Inl TypeError"

text \<open>Python's truth value, as \<^verbatim>\<open>not x\<close> and \<^verbatim>\<open>if x\<close> read it.\<close>

fun truthy :: "json \<Rightarrow> bool" where
  "truthy JNull = False"
| "truthy (JBool b) = b"
| "truthy (JNum r) = (r \<noteq> 0)"
| "truthy (JStr s) = (s \<noteq> [])"
| "truthy (JArr xs) = (xs \<noteq> [])"
| "truthy (JObj kvs) = (kvs \<noteq> [])"

text \<open>Sequencing of steps that may raise.\<close>

definition bind_err :: "error + 'a \<Rightarrow> ('a \<Rightarrow> error + 'b) \<Rightarrow> error + 'b" where
  "bind_err r f = (case r of Inl e \<Rightarrow> Inl e | Inr v \<Rightarrow> f v)"

text \<open>
  The base64 codec of Python's standard library is not part of the repository: it is a
  parameter. \<open>b64decode\<close> is \<^verbatim>\<open>base64.b64decode\<close> on a string (it raises on a string
  it cannot decode), \<open>b64encode\<close> is \<^verbatim>\<open>base64.b64encode(...).decode()\<close>.
\<close>

record stdlib =
  b64decode :: "string \<Rightarrow> error + byte list"
  b64encode :: "byte list \<Rightarrow> string"

text \<open>\<^verbatim>\<open>base64.b64decode(v)\<close> for any JSON value: only a string is accepted.\<close>

fun b64decode_value :: "stdlib \<Rightarrow> json \<Rightarrow> error + byte list" where
  "b64decode_value lib (JStr s) = b64decode lib s"
| "b64decode_value lib _ = Inl TypeError"

section \<open>Audio codec\<close>

text \<open>
  numpy's \<^verbatim>\<open>float32\<close> and \<^verbatim>\<open>float64\<close> arithmetic is read as arithmetic on the reals;
  \<^verbatim>\<open>astype\<close> to an integer type cuts the fraction off (towards zero).
\<close>

definition trunc :: "real \<Rightarrow> int" where
  "trunc v = (if v < 0 then \<lceil>v\<rceil> else \<lfloor>v\<rfloor>)"

definition clip :: "real \<Rightarrow> real \<Rightarrow> real \<Rightarrow> real" where
  "clip v lo hi = min (max v lo) hi"

definition mulaw_expand :: "byte \<Rightarrow> int16" where
  "mulaw_expand b =
     (let y0 = real (unat (b XOR 0xFF));
          y = (y0 / 255) * 2 - 1;
          mu_c = 255;
          x = sgn y * ((1 + mu_c) powr \<bar>y\<bar> - 1) / mu_c
      in of_int (trunc (clip (x * 32768) (- 32768) 32767)))"

definition mulaw_to_pcm16 :: "byte list \<Rightarrow> int16 list" where
  "mulaw_to_pcm16 mu = (if length mu = 0 then [] else map mulaw_expand mu)"

definition mulaw_compress :: "int16 \<Rightarrow> byte" where
  "mulaw_compress s =
     (let x = clip (real_of_int (sint s) / 32768) (- 1) 1;
          mu = 255;
          y = sgn x * ln (1 + mu * \<bar>x\<bar>) / ln (1 + mu)
      in (of_int (trunc ((y + 1) / 2 * 255)) :: byte) XOR 0xFF)"

definition pcm16_to_mulaw :: "int16 list \<Rightarrow> byte list" where
  "pcm16_to_mulaw samples = (if length samples = 0 then [] else map mulaw_compress samples)"

definition upsample_8k_to_24k :: "int16 list \<Rightarrow> int16 list" where
  "upsample_8k_to_24k pcm16_8k =
     (if length pcm16_8k = 0 then pcm16_8k else concat (map (replicate 3) pcm16_8k))"

text \<open>\<^verbatim>\<open>reshape(-1, 3).mean(axis=1).astype(np.int16)\<close> on a length that 3 divides.\<close>

fun mean3 :: "int16 list \<Rightarrow> int16 list" where
  "mean3 (a # b # c # rest) =
     of_int (trunc (real_of_int (sint a + sint b + sint c) / 3)) # mean3 rest"
| "mean3 _ = []"

definition downsample_24k_to_8k :: "int16 list \<Rightarrow> int16 list" where
  "downsample_24k_to_8k pcm16_24k =
     (let n = length pcm16_24k in
      if n = 0 then pcm16_24k
      else
        let trim = n - (n div 3) * 3;
            pcm = (if trim \<noteq> 0 then take (n - trim) pcm16_24k else pcm16_24k)
        in if length pcm = 0 then pcm else mean3 pcm)"

text \<open>
  \<^verbatim>\<open>np.frombuffer(b, dtype=np.int16)\<close>: little-endian pairs; a buffer of odd length
  raises \<^verbatim>\<open>ValueError\<close>. \<^verbatim>\<open>tobytes\<close> is its inverse.
\<close>

fun frombuffer_int16 :: "byte list \<Rightarrow> error + int16 list" where
  "frombuffer_int16 [] = Inr []"
| "frombuffer_int16 [b] = Inl ValueError"
| "frombuffer_int16 (lo # hi # rest) =
     bind_err (frombuffer_int16 rest)
       (\<lambda>ws. Inr ((ucast lo OR push_bit 8 (ucast hi)) # ws))"

definition tobytes_int16 :: "int16 list \<Rightarrow> byte list" where
  "tobytes_int16 ws = concat (map (\<lambda>w. [ucast w, ucast (drop_bit 8 w)]) ws)"

section \<open>The call session and the inbound pump\<close>

text \<open>What the bridge writes to the AI socket.\<close>

datatype directive =
    SessionUpdate
  | ResponseCreate
  | ResponseCancel
  | Append string
  | Commit

text \<open>
  The closure variables of \<^verbatim>\<open>media_stream\<close> that the two pumps share.
  \<open>stream_sid\<close> is \<open>JNull\<close> until a start event stores a value.
\<close>

record session =
  frames_since_commit :: int
  stream_sid :: json
  cancelled_once :: bool

definition init_session :: session where
  "init_session = \<lparr>frames_since_commit = 0, stream_sid = JNull, cancelled_once = False\<rparr>"

definition TWILIO_FRAME_MS :: int where
  "TWILIO_FRAME_MS = 20"

definition MIN_COMMIT_MS :: int where
  "MIN_COMMIT_MS = 120"

text \<open>
  One \<^verbatim>\<open>ws.receive_text()\<close> followed by \<^verbatim>\<open>json.loads\<close>: a text that parses, a text
  that does not, or a receive that raises (the peer went away).
\<close>

datatype inbound = Text json | BadText | RecvFail

datatype flow = Next | Stop

text \<open>
  One turn of the \<^verbatim>\<open>while True\<close> loop of \<^verbatim>\<open>twilio_to_openai\<close>: the directives it sends
  upstream, the new session, and whether the loop goes on (\<^verbatim>\<open>continue\<close>, or the end of
  the body) or leaves (\<^verbatim>\<open>break\<close>). An exception leaves the loop and the pump.
\<close>

definition twilio_to_openai_step ::
  "stdlib \<Rightarrow> inbound \<Rightarrow> session \<Rightarrow> error + (flow \<times> directive list \<times> session)" where
  "twilio_to_openai_step lib msg s =
     (case msg of
        RecvFail \<Rightarrow> Inl WebSocketDisconnect
      | BadText \<Rightarrow> Inl JSONDecodeError
      | Text data \<Rightarrow>
          bind_err (py_get data ''event'') (\<lambda>event.
            if event = JStr ''connected'' then Inr (Next, [], s)
            else if event = JStr ''start'' then
              bind_err (py_item data ''start'') (\<lambda>st.
              bind_err (py_item st ''streamSid'') (\<lambda>sid.
                Inr (Next, [], s\<lparr>stream_sid := sid\<rparr>)))
            else if event = JStr ''stop'' then Inr (Stop, [], s)
            else if event \<noteq> JStr ''media'' then Inr (Next, [], s)
            else
              bind_err (py_item data ''media'') (\<lambda>media.
              bind_err (py_get media ''payload'') (\<lambda>payload_b64.
                if \<not> truthy payload_b64 then Inr (Next, [], s)
                else
                  bind_err (b64decode_value lib payload_b64) (\<lambda>ulaw.
                    let pcm8 = mulaw_to_pcm16 ulaw in
                    if length pcm8 = 0 then Inr (Next, [], s)
                    else
                      let cancel = (if \<not> cancelled_once s then [ResponseCancel] else []);
                          s1 = (if \<not> cancelled_once s then s\<lparr>cancelled_once := True\<rparr> else s);
                          pcm24 = upsample_8k_to_24k pcm8;
                          append = [Append (b64encode lib (tobytes_int16 pcm24))];
                          s2 = s1\<lparr>frames_since_commit := frames_since_commit s1 + 1\<rparr>
                      in
                        if frames_since_commit s2 * TWILIO_FRAME_MS \<ge> MIN_COMMIT_MS
                        then Inr (Next, cancel @ append @ [Commit], s2\<lparr>frames_since_commit := 0\<rparr>)
                        else Inr (Next, cancel @ append, s2))))))"

text \<open>
  The pump over the messages that have arrived so far. \<open>Running\<close>: every message was
  handled and the loop waits in \<^verbatim>\<open>receive_text\<close>; \<open>Stopped\<close>: a stop event left the
  loop, later messages are never read; \<open>Crashed\<close>: an exception left the pump.
\<close>

datatype status = Running | Stopped | Crashed error

fun twilio_to_openai ::
  "stdlib \<Rightarrow> inbound list \<Rightarrow> session \<Rightarrow> status \<times> directive list \<times> session" where
  "twilio_to_openai lib [] s = (Running, [], s)"
| "twilio_to_openai lib (m # ms) s =
     (case twilio_to_openai_step lib m s of
        Inl e \<Rightarrow> (Crashed e, [], s)
      | Inr (Stop, ds, s') \<Rightarrow> (Stopped, ds, s')
      | Inr (Next, ds, s') \<Rightarrow>
          (case twilio_to_openai lib ms s' of (st, ds', s'') \<Rightarrow> (st, ds @ ds', s'')))"

section \<open>The outbound pump\<close>

text \<open>
  One message of \<^verbatim>\<open>async for msg in oa\<close>: a text frame (by what \<^verbatim>\<open>json.loads\<close> makes of
  its data), an error frame, or a frame of another type.
\<close>

datatype oa_message = OaText json | OaBadText | OaErrorFrame | OaOther

text \<open>The media event written to the telephony socket: \<^verbatim>\<open>streamSid\<close> and payload.\<close>

datatype outbound = Media json string

text \<open>
  One turn of the loop of \<^verbatim>\<open>openai_to_twilio\<close>, reading the shared \<open>stream_sid\<close>:
  the media event it sends, if any.
\<close>

definition openai_to_twilio_step ::
  "stdlib \<Rightarrow> oa_message \<Rightarrow> json \<Rightarrow> error + outbound option" where
  "openai_to_twilio_step lib msg sid =
     (case msg of
        OaText evt \<Rightarrow>
          bind_err (py_get evt ''type'') (\<lambda>ty.
            if ty = JStr ''response.audio.delta'' then
              bind_err (py_item evt ''audio'') (\<lambda>audio.
              bind_err (b64decode_value lib audio) (\<lambda>raw.
              bind_err (frombuffer_int16 raw) (\<lambda>pcm24.
                let pcm8 = downsample_24k_to_8k pcm24;
                    ulaw = pcm16_to_mulaw pcm8
                in if \<not> truthy sid \<or> ulaw = [] then Inr None
                   else Inr (Some (Media sid (b64encode lib ulaw))))))
            else Inr None)
      | OaBadText \<Rightarrow> Inl JSONDecodeError
      | OaErrorFrame \<Rightarrow> Inr None
      | OaOther \<Rightarrow> Inr None)"

section \<open>The session handler\<close>

text \<open>
  What \<^verbatim>\<open>media_stream\<close> and its inbound pump do, in order: the calls on the telephony
  socket \<^verbatim>\<open>ws\<close>, the connection attempt, the writes to the AI socket, the start of the
  two pumps, and the handler's return. The outbound pump writes to the telephony
  socket only and is modelled by \<open>openai_to_twilio_step\<close>. Writes to an open socket
  are taken to succeed.
\<close>

datatype action =
    WsAccept
  | WsClose
  | OaConnect
  | OaSend directive
  | Pumps
  | PrintError
  | Return

text \<open>
  \<open>api_key\<close> is \<^verbatim>\<open>OPENAI_API_KEY\<close> (\<^verbatim>\<open>os.getenv\<close> gives a string or \<^verbatim>\<open>None\<close>);
  \<open>connect_ok\<close> says whether \<^verbatim>\<open>session.ws_connect\<close> returns or raises. After a stop
  event the handler still waits for the outbound pump, so no return is recorded.
\<close>

definition key_present :: "string option \<Rightarrow> bool" where
  "key_present api_key = (case api_key of None \<Rightarrow> False | Some k \<Rightarrow> k \<noteq> [])"

definition media_stream ::
  "stdlib \<Rightarrow> string option \<Rightarrow> bool \<Rightarrow> inbound list \<Rightarrow> action list" where
  "media_stream lib api_key connect_ok msgs =
     WsAccept #
     (if \<not> key_present api_key then [PrintError, WsClose, Return]
      else
        OaConnect #
        (if \<not> connect_ok then [PrintError, Return]
         else
           [OaSend SessionUpdate, OaSend ResponseCreate, Pumps] @
           (case twilio_to_openai lib msgs init_session of
              (st, ds, s) \<Rightarrow>
                map OaSend ds @
                (case st of Crashed e \<Rightarrow> [PrintError, Return] | _ \<Rightarrow> []))))"

text \<open>The directives written to the AI socket, in order.\<close>

fun sent :: "action list \<Rightarrow> directive list" where
  "sent [] = []"
| "sent (OaSend d # as) = d # sent as"
| "sent (_ # as) = sent as"

section \<open>Notions the properties are stated with\<close>

text \<open>
  The audio directives of a trace, without their payloads: a frame appended and a commit.
\<close>

datatype mark = Frame | Committed

fun marks :: "directive list \<Rightarrow> mark list" where
  "marks [] = []"
| "marks (Append p # ds) = Frame # marks ds"
| "marks (Commit # ds) = Committed # marks ds"
| "marks (_ # ds) = marks ds"

fun is_append :: "directive \<Rightarrow> bool" where
  "is_append (Append p) = True"
| "is_append _ = False"

definition appended :: "directive list \<Rightarrow> nat" where
  "appended ds = length (filter is_append ds)"

definition commits :: "directive list \<Rightarrow> nat" where
  "commits ds = length (filter (\<lambda>d. d = Commit) ds)"

definition cancels :: "directive list \<Rightarrow> nat" where
  "cancels ds = length (filter (\<lambda>d. d = ResponseCancel) ds)"

text \<open>The event kind of a message: the value of its \<^verbatim>\<open>event\<close> key, when it is a dict.\<close>

definition event_is :: "string \<Rightarrow> inbound \<Rightarrow> bool" where
  "event_is kind msg =
     (case msg of Text data \<Rightarrow> py_get data ''event'' = Inr (JStr kind) | _ \<Rightarrow> False)"

text \<open>
  A media frame that carries audio: a media event whose payload is a non-empty string
  that decodes to at least one byte.
\<close>

definition audio_frame :: "stdlib \<Rightarrow> inbound \<Rightarrow> bool" where
  "audio_frame lib msg =
     (case msg of
        Text data \<Rightarrow>
          py_get data ''event'' = Inr (JStr ''media'') \<and>
          (case py_item data ''media'' of
             Inr media \<Rightarrow>
               (case py_get media ''payload'' of
                  Inr (JStr p) \<Rightarrow>
                    p \<noteq> [] \<and> (case b64decode lib p of Inr bs \<Rightarrow> bs \<noteq> [] | Inl e \<Rightarrow> False)
                | _ \<Rightarrow> False)
           | Inl e \<Rightarrow> False)
      | _ \<Rightarrow> False)"

text \<open>
  An instance of the library parameter, on which the pumps can be evaluated: base64 with
  the standard alphabet on text in canonical form (groups of four characters, the last
  one padded with \<^verbatim>\<open>=\<close>). On such text it decodes as \<^verbatim>\<open>base64.b64decode\<close> does; it
  raises on any other text, where Python's decoder first drops the characters outside
  the alphabet.
\<close>

definition b64_alphabet :: string where
  "b64_alphabet = ''ABCDEFGHIJKLMNOPQRSTUVWXYZabcdefghijklmnopqrstuvwxyz0123456789+/''"

fun index_in :: "'a list \<Rightarrow> 'a \<Rightarrow> nat option" where
  "index_in [] c = None"
| "index_in (x # xs) c = (if x = c then Some 0 else map_option Suc (index_in xs c))"

definition b64_value :: "char \<Rightarrow> nat option" where
  "b64_value c = index_in b64_alphabet c"

definition b64_char :: "nat \<Rightarrow> char" where
  "b64_char n = b64_alphabet ! n"

fun b64_decode_text :: "string \<Rightarrow> error + byte list" where
  "b64_decode_text [] = Inr []"
| "b64_decode_text (a # b # c # d # rest) =
     (case (b64_value a, b64_value b) of
        (Some p, Some q) \<Rightarrow>
          if c = CHR ''='' \<and> d = CHR ''='' \<and> rest = [] then Inr [of_nat (p * 4 + q div 16)]
          else
            (case b64_value c of
               None \<Rightarrow> Inl ValueError
             | Some r \<Rightarrow>
                 if d = CHR ''='' \<and> rest = []
                 then Inr [of_nat (p * 4 + q div 16), of_nat (q mod 16 * 16 + r div 4)]
                 else
                   (case b64_value d of
                      None \<Rightarrow> Inl ValueError
                    | Some t \<Rightarrow>
                        bind_err (b64_decode_text rest)
                          (\<lambda>bs. Inr (of_nat (p * 4 + q div 16)
                                     # of_nat (q mod 16 * 16 + r div 4)
                                     # of_nat (r mod 4 * 64 + t) # bs))))
      | _ \<Rightarrow> Inl ValueError)"
| "b64_decode_text _ = Inl ValueError"

fun b64_encode_bytes :: "byte list \<Rightarrow> string" where
  "b64_encode_bytes [] = []"
| "b64_encode_bytes [a] =
     [b64_char (unat a div 4), b64_char (unat a mod 4 * 16), CHR ''='', CHR ''='']"
| "b64_encode_bytes [a, b] =
     [b64_char (unat a div 4), b64_char (unat a mod 4 * 16 + unat b div 16),
      b64_char (unat b mod 16 * 4), CHR ''='']"
| "b64_encode_bytes (a # b # c # rest) =
     b64_char (unat a div 4) # b64_char (unat a mod 4 * 16 + unat b div 16)
     # b64_char (unat b mod 16 * 4 + unat c div 64) # b64_char (unat c mod 64)
     # b64_encode_bytes rest"

definition base64_lib :: stdlib where
  "base64_lib = \<lparr>b64decode = b64_decode_text, b64encode = b64_encode_bytes\<rparr>"

definition media_event :: "string \<Rightarrow> inbound" where
  "media_event p = Text (JObj [(''event'', JStr ''media''), (''media'', JObj [(''payload'', JStr p)])])"

definition start_event :: "string \<Rightarrow> inbound" where
  "start_event sid = Text (JObj [(''event'', JStr ''start''), (''start'', JObj [(''streamSid'', JStr sid)])])"

definition stop_event :: inbound where
  "stop_event = Text (JObj [(''event'', JStr ''stop'')])"

text \<open>
  The marks of the \<open>i\<close>-th frame appended (counting from 1) in a trace that commits after
  every sixth frame.
\<close>

definition frame_marks :: "nat \<Rightarrow> mark list" where
  "frame_marks i = (if 6 dvd i then [Frame, Committed] else [Frame])"

text \<open>Short inbound traces on which the pump is evaluated.\<close>

definition seven_frames :: "inbound list" where
  "seven_frames = [media_event ''AA=='', media_event ''/w=='', media_event ''AA=='',
     media_event ''/w=='', media_event ''AA=='', media_event ''/w=='', media_event ''AA=='']"

definition two_frames :: "inbound list" where
  "two_frames = [Text (JObj [(''event'', JStr ''connected'')]), start_event ''CA123'',
     media_event ''AA=='', media_event ''/w=='']"

text \<open>An audio delta of three samples (six bytes), for evaluating the outbound pump.\<close>

definition early_delta :: oa_message where
  "early_delta = OaText (JObj [(''type'', JStr ''response.audio.delta''), (''audio'', JStr ''AQIDBAUG'')])"

text \<open>
  The decoder as the specification words it, one definition per step: invert all bits,
  scale to \<open>[-1, 1]\<close>, apply the inverse logarithmic curve with parameter \<open>\<mu>\<close>, scale to
  the 16-bit range and clamp.
\<close>

definition spec_invert_bits :: "byte \<Rightarrow> byte" where
  "spec_invert_bits b = NOT b"

definition spec_scale_unit :: "byte \<Rightarrow> real" where
  "spec_scale_unit q = 2 * real (unat q) / 255 - 1"

definition spec_inverse_curve :: "real \<Rightarrow> real \<Rightarrow> real" where
  "spec_inverse_curve \<mu> y = sgn y * ((1 + \<mu>) powr \<bar>y\<bar> - 1) / \<mu>"

definition spec_scale_clamp :: "real \<Rightarrow> real" where
  "spec_scale_clamp x = max (- 32768) (min 32767 (x * 32768))"

definition spec_compand_decode :: "byte list \<Rightarrow> int16 list" where
  "spec_compand_decode bs =
     map (\<lambda>b. of_int (trunc (spec_scale_clamp
            (spec_inverse_curve 255 (spec_scale_unit (spec_invert_bits b)))))) bs"

section \<open>Resampling\<close>

lemma length_mean3: "length (mean3 xs) = length xs div 3"
  by (induction xs rule: mean3.induct) simp_all

lemma length_downsample: "length (downsample_24k_to_8k x) = length x div 3"
proof -
  have "length x - (length x - length x div 3 * 3) = length x div 3 * 3"
    by simp
  then show ?thesis
    by (auto simp: downsample_24k_to_8k_def Let_def length_mean3)
qed

lemma pcm16_to_mulaw_Nil_iff: "pcm16_to_mulaw x = [] \<longleftrightarrow> x = []"
  by (simp add: pcm16_to_mulaw_def)

lemma converted_empty_iff:
  "pcm16_to_mulaw (downsample_24k_to_8k pcm24) = [] \<longleftrightarrow> length pcm24 < 3"
proof -
  have "downsample_24k_to_8k pcm24 = [] \<longleftrightarrow> length pcm24 div 3 = 0"
    using length_downsample [of pcm24] by (metis length_0_conv)
  moreover have "length pcm24 div 3 = 0 \<longleftrightarrow> length pcm24 < 3" by presburger
  ultimately show ?thesis by (simp add: pcm16_to_mulaw_Nil_iff)
qed

lemma trunc_of_int: "trunc (real_of_int k) = k"
  by (simp add: trunc_def)

lemma length_repeat3: "length (concat (map (replicate 3) x)) = length x * 3"
  by (induction x) simp_all

lemma length_upsample: "length (upsample_8k_to_24k x) = length x * 3"
  by (simp add: upsample_8k_to_24k_def length_repeat3)

lemma nth_repeat3:
  "i < length x * 3 \<Longrightarrow> concat (map (replicate 3) x) ! i = x ! (i div 3)"
proof (induction x arbitrary: i)
  case Nil
  then show ?case by simp
next
  case (Cons a x)
  show ?case
  proof (cases "i < 3")
    case True
    then have "replicate 3 a ! i = a" by simp
    with True show ?thesis by (simp add: nth_append)
  next
    case False
    then have "(i - 3) div 3 = i div 3 - 1" "i div 3 \<noteq> 0" by presburger+
    with False Cons.prems Cons.IH [of "i - 3"] show ?thesis
      by (simp add: nth_append nth_Cons')
  qed
qed

lemma nth_upsample:
  "i < length x * 3 \<Longrightarrow> upsample_8k_to_24k x ! i = x ! (i div 3)"
  by (cases "x = []") (simp_all add: upsample_8k_to_24k_def nth_repeat3)

lemma nth_mean3:
  "i < length y div 3 \<Longrightarrow>
     mean3 y ! i = of_int (trunc (real_of_int
       (sint (y ! (3 * i)) + sint (y ! (3 * i + 1)) + sint (y ! (3 * i + 2))) / 3))"
proof (induction y arbitrary: i rule: mean3.induct)
  case (1 a b c rest)
  show ?case
  proof (cases i)
    case 0
    then show ?thesis by simp
  next
    case (Suc j)
    with "1.prems" have "j < length rest div 3" by simp
    from "1.IH" [OF this] Suc show ?thesis by simp
  qed
qed simp_all

lemma downsample_eq:
  "downsample_24k_to_8k y = mean3 (take (length y div 3 * 3) y)"
proof -
  have "length y - (length y - length y div 3 * 3) = length y div 3 * 3"
    by simp
  moreover have "length y = length y div 3 * 3" if "length y - length y div 3 * 3 = 0"
    using that by presburger
  moreover have "mean3 [] = []" by simp
  ultimately show ?thesis
    by (auto simp: downsample_24k_to_8k_def Let_def)
qed

lemma nth_downsample:
  assumes "i < length y div 3"
  shows "downsample_24k_to_8k y ! i = of_int (trunc (real_of_int
       (sint (y ! (3 * i)) + sint (y ! (3 * i + 1)) + sint (y ! (3 * i + 2))) / 3))"
proof -
  let ?y = "take (length y div 3 * 3) y"
  have l: "length ?y = length y div 3 * 3" by simp
  from assms have i: "3 * i + 2 < length y div 3 * 3" by simp
  then have "?y ! (3 * i) = y ! (3 * i)" "?y ! (3 * i + 1) = y ! (3 * i + 1)"
    "?y ! (3 * i + 2) = y ! (3 * i + 2)" by simp_all
  moreover from assms l have "i < length ?y div 3" by simp
  ultimately show ?thesis
    unfolding downsample_eq using nth_mean3 [of i ?y] by simp
qed

lemma of_int_sint_id: "(word_of_int (sint a) :: 'a::len word) = a"
  by simp

lemma mean3_triple: "mean3 (a # a # a # rest) = a # mean3 rest"
proof -
  have "real_of_int (sint a + sint a + sint a) / 3 = real_of_int (sint a)" by simp
  then have "trunc (real_of_int (sint a + sint a + sint a) / 3) = sint a"
    by (simp only: trunc_of_int)
  then have "(word_of_int (trunc (real_of_int (sint a + sint a + sint a) / 3)) :: int16) = a"
    by (simp only: of_int_sint_id)
  then show ?thesis by (simp only: mean3.simps)
qed

lemma mean3_repeat3: "mean3 (concat (map (replicate 3) x)) = x"
proof (induction x)
  case Nil
  show ?case by simp
next
  case (Cons a x)
  then show ?case by (simp add: numeral_3_eq_3 mean3_triple del: mean3.simps)
qed

lemma downsample_upsample: "downsample_24k_to_8k (upsample_8k_to_24k x) = x"
proof (cases "x = []")
  case True
  then show ?thesis by (simp add: downsample_24k_to_8k_def upsample_8k_to_24k_def)
next
  case False
  from length_repeat3 [of x] show ?thesis using False
    by (simp add: downsample_eq upsample_8k_to_24k_def mean3_repeat3)
qed

lemma downsample_drops_tail:
  "downsample_24k_to_8k y = downsample_24k_to_8k (take (length y div 3 * 3) y)"
proof -
  have "length y div 3 * 3 \<le> length y" by simp
  then have "length (take (length y div 3 * 3) y) = length y div 3 * 3" by simp
  then show ?thesis by (simp add: downsample_eq)
qed

text \<open>
  C4. With the factor 3 of the implementation: upsampling gives a sequence three times as
  long whose \<open>i\<close>-th sample is sample \<open>i div 3\<close> of the input (each sample three
  times, in order); downsampling gives a sequence of a third of the length, rounded down,
  whose \<open>i\<close>-th sample is the mean of the \<open>i\<close>-th block of three, cut to an integer,
  and which is the same with an incomplete last block taken away; and downsampling an upsampled sequence gives the
  sequence back, sample for sample. The mean of three 16-bit samples is computed by numpy
  in \<^verbatim>\<open>float64\<close>, where the sum is exact and the rounded quotient has the integer part
  of the exact one.
\<close>

theorem resampling_lengths_and_roundtrip:
  "length (upsample_8k_to_24k x) = length x * 3
   \<and> (\<forall>i. i < length x * 3 \<longrightarrow> upsample_8k_to_24k x ! i = x ! (i div 3))
   \<and> length (downsample_24k_to_8k y) = length y div 3
   \<and> (\<forall>i. i < length y div 3 \<longrightarrow>
         downsample_24k_to_8k y ! i = of_int (trunc (real_of_int
           (sint (y ! (3 * i)) + sint (y ! (3 * i + 1)) + sint (y ! (3 * i + 2))) / 3)))
   \<and> downsample_24k_to_8k y = downsample_24k_to_8k (take (length y div 3 * 3) y)
   \<and> downsample_24k_to_8k (upsample_8k_to_24k x) = x"
  using downsample_drops_tail [of y]
  by (simp add: length_upsample nth_upsample length_downsample nth_downsample
      downsample_upsample)

theorem resampling_lengths_and_roundtrip_witness:
  "length (downsample_24k_to_8k [3, 4, 5, 7]) = 1
   \<and> downsample_24k_to_8k [3, 4, 5, 7] ! 0 = 4
   \<and> downsample_24k_to_8k [3, 4, 5, 7] = downsample_24k_to_8k [3, 4, 5]
   \<and> upsample_8k_to_24k [1, - 2] ! 3 = - 2
   \<and> downsample_24k_to_8k (upsample_8k_to_24k [1, - 2]) = [1, - 2]"
proof -
  let ?x = "[1, - 2] :: int16 list" and ?y = "[3, 4, 5, 7] :: int16 list"
  note t = resampling_lengths_and_roundtrip [of ?x ?y]
  from t have "length (downsample_24k_to_8k ?y) = length ?y div 3" by blast
  then have a: "length (downsample_24k_to_8k ?y) = 1" by simp
  from t have "0 < length ?y div 3 \<longrightarrow> downsample_24k_to_8k ?y ! 0 =
      of_int (trunc (real_of_int
        (sint (?y ! (3 * 0)) + sint (?y ! (3 * 0 + 1)) + sint (?y ! (3 * 0 + 2))) / 3))"
    by blast
  then have b: "downsample_24k_to_8k ?y ! 0 = 4" by (simp add: trunc_def)
  from t have "downsample_24k_to_8k ?y = downsample_24k_to_8k (take (length ?y div 3 * 3) ?y)"
    by blast
  then have c: "downsample_24k_to_8k ?y = downsample_24k_to_8k [3, 4, 5]" by simp
  from t have "3 < length ?x * 3 \<longrightarrow> upsample_8k_to_24k ?x ! 3 = ?x ! (3 div 3)"
    by blast
  then have d: "upsample_8k_to_24k ?x ! 3 = - 2" by simp
  from t have e: "downsample_24k_to_8k (upsample_8k_to_24k ?x) = ?x" by blast
  from a b c d e show ?thesis by simp
qed

section \<open>Companding\<close>

lemma xor_ff_eq_not: "(b :: byte) XOR 0xFF = NOT b"
proof -
  have "(0xFF :: byte) = - 1" by simp
  then show ?thesis by (simp only: bit.xor_one_right)
qed

lemma unat_byte_le: "unat (q :: byte) \<le> 255"
  using unsigned_less [of q, where ?'a = nat] by simp

lemma spec_scale_unit_range: "- 1 \<le> spec_scale_unit q \<and> spec_scale_unit q \<le> 1"
proof -
  have "real (unat q) \<le> 255" using unat_byte_le [of q] by linarith
  moreover have "0 \<le> real (unat q)" by (rule of_nat_0_le_iff)
  ultimately show ?thesis by (simp add: spec_scale_unit_def)
qed

lemma clip_range: "lo \<le> hi \<Longrightarrow> lo \<le> clip v lo hi \<and> clip v lo hi \<le> hi"
  by (simp add: clip_def)

lemma clip_eq_clamp: "clip (x * 32768) (- 32768) 32767 = spec_scale_clamp x"
  by (simp add: clip_def spec_scale_clamp_def max_def min_def)

lemma trunc_mono_bounds:
  assumes "real_of_int lo \<le> v" and "v \<le> real_of_int hi"
  shows "lo \<le> trunc v \<and> trunc v \<le> hi"
  using assms by (auto simp: trunc_def le_floor_iff ceiling_le_iff) linarith+

lemma sint_int16_of_int:
  assumes "- 32768 \<le> k" and "k \<le> 32767"
  shows "sint (word_of_int k :: int16) = k"
  using assms by (simp add: sint_sbintrunc' signed_take_bit_int_eq_self)

lemma mulaw_expand_spec:
  "mulaw_expand b = of_int (trunc (spec_scale_clamp
      (spec_inverse_curve 255 (spec_scale_unit (spec_invert_bits b)))))"
  by (simp add: mulaw_expand_def Let_def clip_eq_clamp spec_inverse_curve_def
      spec_scale_unit_def spec_invert_bits_def xor_ff_eq_not mult.commute)

lemma sint_mulaw_expand:
  "sint (mulaw_expand b) =
     trunc (spec_scale_clamp (spec_inverse_curve 255 (spec_scale_unit (NOT b))))"
proof -
  let ?v = "spec_scale_clamp (spec_inverse_curve 255 (spec_scale_unit (NOT b)))"
  have "real_of_int (- 32768) \<le> ?v" "?v \<le> real_of_int 32767"
    by (simp_all add: spec_scale_clamp_def)
  from trunc_mono_bounds [OF this] have "- 32768 \<le> trunc ?v" "trunc ?v \<le> 32767"
    by simp_all
  from sint_int16_of_int [OF this] show ?thesis
    by (simp add: mulaw_expand_spec spec_invert_bits_def)
qed

lemma mulaw_expand_0: "mulaw_expand 0 = 32767"
  by (simp add: mulaw_expand_def Let_def clip_def trunc_def)

lemma mulaw_expand_255: "mulaw_expand 255 = - 32768"
  by (simp add: mulaw_expand_def Let_def clip_def trunc_def)

text \<open>
  C6. The decoder of the code is the decoder of the specification: byte by byte it inverts
  all bits (the exclusive or with \<^verbatim>\<open>0xFF\<close>), scales the result into \<open>[-1, 1]\<close>, applies
  the inverse logarithmic curve with \<open>\<mu> = 255\<close>, scales by 32768 and clamps to
  \<open>[-32768, 32767]\<close>; the clamped value is what the 16-bit sample holds once its
  fraction is cut off (the conversion never wraps); the output is as long as the input,
  empty for the empty input. At the two ends, byte \<^verbatim>\<open>0x00\<close> gives 32767 (the clamp
  acts: the curve gives 32768) and byte \<^verbatim>\<open>0xFF\<close> gives -32768.
\<close>

theorem mulaw_to_pcm16_as_specified:
  "mulaw_to_pcm16 mu = spec_compand_decode mu
   \<and> mulaw_to_pcm16 [] = []
   \<and> length (mulaw_to_pcm16 mu) = length mu
   \<and> spec_invert_bits b = b XOR 0xFF
   \<and> - 1 \<le> spec_scale_unit q \<and> spec_scale_unit q \<le> 1
   \<and> - 32768 \<le> spec_scale_clamp x \<and> spec_scale_clamp x \<le> 32767
   \<and> sint (mulaw_expand b) =
       trunc (spec_scale_clamp (spec_inverse_curve 255 (spec_scale_unit (NOT b))))
   \<and> mulaw_to_pcm16 [0] = [32767]
   \<and> mulaw_to_pcm16 [255] = [- 32768]"
proof -
  have "mulaw_to_pcm16 mu = spec_compand_decode mu"
    by (simp add: mulaw_to_pcm16_def spec_compand_decode_def mulaw_expand_spec)
  moreover have "- 32768 \<le> spec_scale_clamp x \<and> spec_scale_clamp x \<le> 32767"
    by (simp add: spec_scale_clamp_def)
  moreover have "length (mulaw_to_pcm16 mu) = length mu"
    by (simp add: mulaw_to_pcm16_def)
  ultimately show ?thesis
    using spec_scale_unit_range [of q] sint_mulaw_expand [of b]
    by (simp add: mulaw_to_pcm16_def mulaw_expand_0 mulaw_expand_255 spec_invert_bits_def
        xor_ff_eq_not)
qed

section \<open>The companding round trip\<close>

lemma ln2_le: "ln (2::real) \<le> 7 / 10"
proof -
  have "(2::real) \<le> (1 + 7 / 40 + (7 / 40)\<^sup>2 / 2) ^ 4"
    by (simp add: power2_eq_square power4_eq_xxxx)
  also have "\<dots> \<le> exp (7 / 40 :: real) ^ 4"
    by (intro power_mono exp_lower_Taylor_quadratic) simp_all
  also have "\<dots> = exp (of_nat 4 * (7 / 40 :: real))"
    by (simp only: exp_of_nat_mult)
  also have "\<dots> = exp (7 / 10 :: real)" by simp
  finally have "ln (2::real) \<le> ln (exp (7 / 10))"
    by (subst ln_le_cancel_iff) simp_all
  then show ?thesis by simp
qed

lemma ln2_ge: "1 / 2 \<le> ln (2::real)"
proof -
  have "exp (1 / 2 :: real) \<le> 1 + 1 / 2 + (1 / 2)\<^sup>2"
    by (rule exp_bound) simp_all
  also have "\<dots> \<le> 2" by (simp add: power2_eq_square)
  finally have "exp (1 / 2 :: real) \<le> 2" .
  then show ?thesis by (subst ln_ge_iff) simp_all
qed

lemma ln256: "ln (256::real) = 8 * ln 2"
proof -
  have "(256::real) = 2 ^ 8" by simp
  then have "ln (256::real) = ln (2 ^ 8)" by simp
  also have "\<dots> = 8 * ln 2" by (simp only: ln_realpow)
  finally show ?thesis .
qed

lemma ln256_pos: "0 < ln (256::real)"
  by simp

lemma powr256_diff:
  assumes "0 \<le> a" and "a \<le> b" and "b \<le> 1"
  shows "0 \<le> (256::real) powr b - 256 powr a
    \<and> (256::real) powr b - 256 powr a \<le> 256 * ln 256 * (b - a)" (is "?lo \<and> ?hi")
proof
  show ?lo using assms by simp
  have e: "256 powr (a - b) = exp ((a - b) * ln (256::real))"
    by (simp add: powr_def)
  have "1 + (a - b) * ln (256::real) \<le> 256 powr (a - b)"
    unfolding e by (rule exp_ge_add_one_self)
  then have d: "1 - 256 powr (a - b) \<le> (b - a) * ln (256::real)"
    by (simp add: algebra_simps)
  have "256 powr (a - b) \<le> (256::real) powr 0"
    using assms by (intro powr_mono) simp_all
  then have n: "0 \<le> 1 - (256::real) powr (a - b)" by simp
  have "256 powr b \<le> (256::real) powr 1"
    using assms by (intro powr_mono) simp_all
  then have u: "256 powr b \<le> (256::real)" by simp
  have "256 powr b - 256 powr a = 256 powr b * (1 - 256 powr (a - b))"
    by (simp add: algebra_simps powr_add [symmetric])
  also have "\<dots> \<le> 256 * ((b - a) * ln 256)"
    using u d n by (intro mult_mono) simp_all
  finally show ?hi by (simp add: algebra_simps)
qed

lemma curve_diff_nonneg:
  assumes "0 \<le> a" and "a \<le> b" and "b \<le> 1"
  shows "0 \<le> spec_inverse_curve 255 b - spec_inverse_curve 255 a
    \<and> spec_inverse_curve 255 b - spec_inverse_curve 255 a \<le> 256 * ln 256 / 255 * (b - a)"
proof -
  have g0: "(256::real) powr 0 = 1" by simp
  have f: "spec_inverse_curve 255 t = (256 powr t - 1) / 255" if "0 \<le> t" for t
  proof (cases "t = 0")
    case True
    then show ?thesis by (simp add: spec_inverse_curve_def)
  next
    case False
    with that have "sgn t = 1" "\<bar>t\<bar> = t" by simp_all
    then show ?thesis by (simp add: spec_inverse_curve_def)
  qed
  from assms have "0 \<le> b" by simp
  from f [OF this] f [OF assms(1)]
  have eq: "spec_inverse_curve 255 b - spec_inverse_curve 255 a = (256 powr b - 256 powr a) / 255"
    by (simp add: diff_divide_distrib)
  from powr256_diff [OF assms] have lo: "0 \<le> (256::real) powr b - 256 powr a"
    and hi: "(256::real) powr b - 256 powr a \<le> 256 * ln 256 * (b - a)" by simp_all
  from lo have "0 \<le> ((256::real) powr b - 256 powr a) / 255" by simp
  moreover from hi have "((256::real) powr b - 256 powr a) / 255 \<le> 256 * ln 256 * (b - a) / 255"
    by (rule divide_right_mono) simp
  ultimately show ?thesis unfolding eq by simp
qed

lemma curve_0: "spec_inverse_curve 255 0 = 0"
  by (simp add: spec_inverse_curve_def)

lemma curve_odd: "spec_inverse_curve 255 (- t) = - spec_inverse_curve 255 t"
  by (simp add: spec_inverse_curve_def sgn_minus)

lemma curve_diff:
  assumes "- 1 \<le> a" and "a \<le> b" and "b \<le> 1"
  shows "0 \<le> spec_inverse_curve 255 b - spec_inverse_curve 255 a
    \<and> spec_inverse_curve 255 b - spec_inverse_curve 255 a \<le> 256 * ln 256 / 255 * (b - a)"
proof -
  consider "0 \<le> a" | "b \<le> 0" | "a < 0" "0 < b" by linarith
  then show ?thesis
  proof cases
    case 1
    from curve_diff_nonneg [OF 1 assms(2,3)] show ?thesis .
  next
    case 2
    from 2 assms have "0 \<le> - b" "- b \<le> - a" "- a \<le> 1" by simp_all
    from curve_diff_nonneg [OF this] show ?thesis by (simp add: curve_odd)
  next
    case 3
    from 3 assms have "0 \<le> (0::real)" "0 \<le> b" "b \<le> 1" by simp_all
    from curve_diff_nonneg [OF this] have p:
      "0 \<le> spec_inverse_curve 255 b"
      "spec_inverse_curve 255 b \<le> 256 * ln 256 / 255 * b"
      by (simp_all add: curve_0)
    from 3 assms have "0 \<le> (0::real)" "0 \<le> - a" "- a \<le> 1" by simp_all
    from curve_diff_nonneg [OF this] have q:
      "0 \<le> - spec_inverse_curve 255 a"
      "- spec_inverse_curve 255 a \<le> 256 * ln 256 / 255 * (- a)"
      by (simp_all add: curve_odd curve_0)
    have "k * (b - a) = k * b + k * (- a)" for k :: real
      by (simp add: right_diff_distrib)
    then have "256 * ln 256 / 255 * (b - a) = 256 * ln 256 / 255 * b + 256 * ln 256 / 255 * (- a)" .
    with p q show ?thesis by linarith
  qed
qed

lemma curve_inverse:
  "spec_inverse_curve 255 (sgn x * ln (1 + 255 * \<bar>x\<bar>) / ln (1 + 255)) = x"
proof (cases "x = 0")
  case True
  then show ?thesis by (simp add: spec_inverse_curve_def)
next
  case False
  let ?l = "ln (1 + 255 * \<bar>x\<bar>) / ln 256"
  from False have p: "0 < ln (1 + 255 * \<bar>x\<bar>)" by (intro ln_gt_zero) simp
  then have l: "0 < ?l" by simp
  have s: "sgn (sgn x * ?l) = sgn x" using l False by (simp add: sgn_mult)
  have a: "\<bar>sgn x * ?l\<bar> = ?l" using l False by (simp add: abs_mult)
  have "256 powr ?l = exp (ln (1 + 255 * \<bar>x\<bar>))"
    by (simp add: powr_def)
  also have "\<dots> = 1 + 255 * \<bar>x\<bar>" by (intro exp_ln) (simp add: add_pos_nonneg)
  finally have "spec_inverse_curve 255 (sgn x * ?l) = sgn x * \<bar>x\<bar>"
    unfolding spec_inverse_curve_def s a by simp
  then show ?thesis by (simp add: mult_sgn_abs)
qed


lemma xor_ff_twice: "((w :: byte) XOR 0xFF) XOR 0xFF = w"
  by (simp add: xor.assoc)

lemma unat_byte_of_int:
  assumes "0 \<le> q" and "q \<le> 255"
  shows "real (unat (word_of_int q :: byte)) = real_of_int q"
proof -
  from assms have "take_bit 8 q = q" by (intro take_bit_int_eq_self) simp_all
  then have "uint (word_of_int q :: byte) = q" by (simp add: uint_word_of_int take_bit_eq_mod)
  then have "int (unat (word_of_int q :: byte)) = q" by simp
  then show ?thesis by (metis of_int_of_nat_eq)
qed

lemma curve_minus_1: "spec_inverse_curve 255 (- 1) = - 1"
  by (simp add: spec_inverse_curve_def)

lemma trunc_le_int:
  assumes "v \<le> real_of_int k"
  shows "trunc v \<le> k"
  using assms by (auto simp: trunc_def ceiling_le_iff floor_le_iff)

lemma trunc_gt: "v - 1 < real_of_int (trunc v)"
  by (auto simp: trunc_def) linarith+

lemma expand_compress_sample:
  "0 \<le> sint s - sint (mulaw_expand (mulaw_compress s))
   \<and> sint s - sint (mulaw_expand (mulaw_compress s)) \<le> 1445"
proof -
  define X where "X = real_of_int (sint s)"
  define x where "x = X / 32768"
  define y where "y = sgn x * ln (1 + 255 * \<bar>x\<bar>) / ln (1 + 255)"
  define v where "v = (y + 1) / 2 * 255"
  define q where "q = \<lfloor>v\<rfloor>"
  define y' where "y' = real_of_int q / 255 * 2 - 1"
  define X' where "X' = spec_inverse_curve 255 y' * 32768"
  have "- (2 ^ (LENGTH(16) - 1)) \<le> sint s" "sint s < 2 ^ (LENGTH(16) - 1)"
    by (rule sint_ge, rule sint_lt)
  then have "real_of_int (- 32768) \<le> real_of_int (sint s)"
    "real_of_int (sint s) \<le> real_of_int 32767"
    by (simp_all only: of_int_le_iff) simp_all
  then have Xr: "- 32768 \<le> X" "X \<le> 32767" by (simp_all add: X_def)
  then have xr: "- 1 \<le> x" "x \<le> 1" by (simp_all add: x_def)
  then have cx: "clip x (- 1) 1 = x" by (simp add: clip_def)
  have ax: "\<bar>x\<bar> \<le> 1" using xr by simp
  have l0: "0 \<le> ln (1 + 255 * \<bar>x\<bar>)" by (intro ln_ge_zero) simp
  have "ln (1 + 255 * \<bar>x\<bar>) \<le> ln 256"
    using ax by (subst ln_le_cancel_iff) (simp_all add: add_pos_nonneg)
  with l0 have t: "0 \<le> ln (1 + 255 * \<bar>x\<bar>) / ln 256" "ln (1 + 255 * \<bar>x\<bar>) / ln 256 \<le> 1"
    by simp_all
  have ay: "\<bar>y\<bar> = \<bar>sgn x\<bar> * (ln (1 + 255 * \<bar>x\<bar>) / ln 256)"
    using l0 by (simp add: y_def abs_mult)
  have "\<bar>sgn x\<bar> \<le> 1" by (simp add: abs_sgn_eq)
  then have "\<bar>sgn x\<bar> * (ln (1 + 255 * \<bar>x\<bar>) / ln 256) \<le> 1"
    using t by (intro mult_le_one) simp_all
  then have "\<bar>y\<bar> \<le> 1" by (simp only: ay)
  then have yr: "- 1 \<le> y" "y \<le> 1" by simp_all
  then have vr: "0 \<le> v" "v \<le> 255" by (simp_all add: v_def)
  then have qr: "0 \<le> q" "q \<le> 255" by (simp_all add: q_def floor_le_iff le_floor_iff)
  have tv: "trunc v = q" using vr by (simp add: trunc_def q_def)
  have cx': "clip (real_of_int (sint s) / 32768) (- 1) 1 = x"
    using cx by (simp only: x_def X_def)
  have "mulaw_compress s = (word_of_int (trunc v) :: byte) XOR 0xFF"
    by (simp only: mulaw_compress_def Let_def cx' v_def y_def)
  then have comp: "mulaw_compress s = (word_of_int q :: byte) XOR 0xFF"
    by (simp only: tv)
  have qv: "real_of_int q \<le> v" "v < real_of_int q + 1" by (simp_all add: q_def)
  then have y'le: "y' \<le> y" and y'gt: "y - y' < 2 / 255"
    by (simp_all add: y'_def v_def field_simps)
  from qr have y'r: "- 1 \<le> y'" by (simp add: y'_def)
  have ex: "mulaw_expand (mulaw_compress s) =
      word_of_int (trunc (clip X' (- 32768) 32767))"
    by (simp only: mulaw_expand_def Let_def comp xor_ff_twice unat_byte_of_int [OF qr]
        X'_def y'_def spec_inverse_curve_def)
  have fy: "spec_inverse_curve 255 y = x" unfolding y_def by (rule curve_inverse)
  from curve_diff [OF y'r y'le yr(2)] fy
  have d0: "0 \<le> x - spec_inverse_curve 255 y'"
    and d1: "x - spec_inverse_curve 255 y' \<le> 256 * ln 256 / 255 * (y - y')" by simp_all
  have "256 * ln 256 / 255 * (y - y') \<le> 256 * ln 256 / 255 * (2 / 255)"
    using y'gt by (intro mult_left_mono) simp_all
  also have "\<dots> \<le> 256 * (8 * (7 / 10)) / 255 * (2 / 255)"
    using ln2_le by (simp add: ln256)
  finally have "256 * ln 256 / 255 * (y - y') \<le> 256 * (8 * (7 / 10)) / 255 * (2 / 255)" .
  with d1 have "x - spec_inverse_curve 255 y' \<le> 256 * (8 * (7 / 10)) / 255 * (2 / 255)"
    by (rule order_trans)
  then have D1: "X - X' \<le> 1445" by (simp add: X'_def x_def field_simps)
  from d0 have D0: "X' \<le> X" by (simp add: X'_def x_def field_simps)
  from curve_diff [OF _ y'r] y'le yr(2) have "- 1 \<le> spec_inverse_curve 255 y'"
    by (simp add: curve_minus_1)
  then have lo: "- 32768 \<le> X'" by (simp add: X'_def)
  from D0 Xr have hi: "X' \<le> 32767" by simp
  from lo hi have cl: "clip X' (- 32768) 32767 = X'" by (simp add: clip_def)
  have "real_of_int (- 32768) \<le> X'" "X' \<le> real_of_int 32767" using lo hi by simp_all
  from trunc_mono_bounds [OF this] have "- 32768 \<le> trunc X'" "trunc X' \<le> 32767"
    by simp_all
  from sint_int16_of_int [OF this]
  have out: "sint (mulaw_expand (mulaw_compress s)) = trunc X'" by (simp add: ex cl)
  have a: "trunc X' \<le> sint s" using D0 by (intro trunc_le_int) (simp add: X_def)
  have "real_of_int (sint s) - real_of_int (trunc X') < 1446"
    using trunc_gt [of X'] D1 by (simp add: X_def)
  then have "sint s - trunc X' < 1446" by linarith
  with a show ?thesis by (simp add: out)
qed


lemma mulaw_compress_0: "mulaw_compress 0 = 128"
  by (simp add: mulaw_compress_def Let_def clip_def trunc_def)

lemma powr256_small:
  "1 + 4 / 255 \<le> (256::real) powr (1 / 255)
   \<and> (256::real) powr (1 / 255) \<le> 1 + (28 / 5) / 255 + ((28 / 5) / 255)\<^sup>2"
proof -
  define t where "t = ln (256::real) / 255"
  have p: "(256::real) powr (1 / 255) = exp t" by (simp add: powr_def t_def)
  have t4: "4 / 255 \<le> t" using ln2_ge by (simp add: t_def ln256)
  have t5: "t \<le> (28 / 5) / 255" using ln2_le by (simp add: t_def ln256)
  have "1 + 4 / 255 \<le> 1 + t" using t4 by simp
  also have "\<dots> \<le> exp t" by (rule exp_ge_add_one_self)
  finally have lo: "1 + 4 / 255 \<le> exp t" .
  have t0: "0 \<le> t" using t4 by simp
  have t1: "t \<le> 1" using t5 by simp
  have "t\<^sup>2 \<le> ((28 / 5) / 255)\<^sup>2" using t0 t5 by (intro power_mono) simp_all
  with t5 have "1 + t + t\<^sup>2 \<le> 1 + (28 / 5) / 255 + ((28 / 5) / 255)\<^sup>2" by simp
  with exp_bound [OF t0 t1] have hi: "exp t \<le> 1 + (28 / 5) / 255 + ((28 / 5) / 255)\<^sup>2"
    by (rule order_trans)
  from lo hi show ?thesis by (simp only: p)
qed

lemma mulaw_expand_128: "mulaw_expand 128 = - 2"
proof -
  define p where "p = (256::real) powr (1 / 255)"
  define X' where "X' = (32768 - p * 32768) / 255"
  from powr256_small have lo: "1 + 4 / 255 \<le> p"
    and hi: "p \<le> 1 + (28 / 5) / 255 + ((28 / 5) / 255)\<^sup>2" by (simp_all add: p_def)
  from lo have a: "X' \<le> - 2" by (simp add: X'_def field_simps)
  from hi have b: "- 3 < X'" by (simp add: X'_def field_simps power2_eq_square)
  from a b have "\<lceil>X'\<rceil> = - 2" by (intro ceiling_unique) simp_all
  with a have t: "trunc X' = - 2" by (simp add: trunc_def)
  from a b have c: "clip X' (- 32768) 32767 = X'" by (simp add: clip_def)
  have "(128 :: byte) XOR 0xFF = 127" by simp
  then have "mulaw_expand 128 = word_of_int (trunc (clip X' (- 32768) 32767))"
    by (simp add: mulaw_expand_def Let_def X'_def p_def)
  then show ?thesis by (simp add: c t)
qed

text \<open>
  C5. Decoding an encoded sequence gives, sample for sample, a value that is never above
  the original and at most 1445 below it (one quantisation step of the 8-bit code at full
  scale); equality is not reached in general: the sample 0 comes back as -2. Here the
  \<^verbatim>\<open>float32\<close> arithmetic of the two transforms is read as real arithmetic.
\<close>

theorem mulaw_roundtrip_error_bounded:
  "list_all2 (\<lambda>out s. 0 \<le> sint s - sint out \<and> sint s - sint out \<le> 1445)
     (mulaw_to_pcm16 (pcm16_to_mulaw x)) x
   \<and> mulaw_to_pcm16 (pcm16_to_mulaw [0]) = [- 2]"
proof -
  have "mulaw_to_pcm16 (pcm16_to_mulaw x) = map (\<lambda>s. mulaw_expand (mulaw_compress s)) x"
    by (simp add: mulaw_to_pcm16_def pcm16_to_mulaw_def)
  moreover have "list_all2 (\<lambda>out s. 0 \<le> sint s - sint out \<and> sint s - sint out \<le> 1445)
     (map (\<lambda>s. mulaw_expand (mulaw_compress s)) x) x"
    unfolding list_all2_map1 by (rule list_all2_refl) (rule expand_compress_sample)
  moreover have "mulaw_to_pcm16 (pcm16_to_mulaw [0]) = [- 2]"
    by (simp add: mulaw_to_pcm16_def pcm16_to_mulaw_def mulaw_compress_0 mulaw_expand_128)
  ultimately show ?thesis by simp
qed
section \<open>One turn of the inbound loop\<close>

lemma mulaw_to_pcm16_Nil_iff: "mulaw_to_pcm16 mu = [] \<longleftrightarrow> mu = []"
  by (simp add: mulaw_to_pcm16_def)

lemma bind_err_Inr_iff:
  "bind_err r f = Inr v \<longleftrightarrow> (\<exists>a. r = Inr a \<and> f a = Inr v)"
  by (cases r) (simp_all add: bind_err_def)

lemma bind_err_simps:
  "bind_err (Inl e) f = Inl e" "bind_err (Inr a) f = f a"
  by (simp_all add: bind_err_def)

lemma b64decode_value_Inr:
  "b64decode_value lib v = Inr bs \<longleftrightarrow> (\<exists>p. v = JStr p \<and> b64decode lib p = Inr bs)"
  by (cases v) simp_all

lemma audio_frame_iff:
  "audio_frame lib m \<longleftrightarrow>
     (\<exists>data media p bs. m = Text data
        \<and> py_get data ''event'' = Inr (JStr ''media'')
        \<and> py_item data ''media'' = Inr media
        \<and> py_get media ''payload'' = Inr (JStr p) \<and> p \<noteq> []
        \<and> b64decode lib p = Inr bs \<and> bs \<noteq> [])"
proof (cases m)
  case (Text data)
  show ?thesis
  proof (cases "py_item data ''media''")
    case (Inl e)
    then show ?thesis by (simp add: audio_frame_def Text)
  next
    case (Inr media)
    show ?thesis
    proof (cases "py_get media ''payload''")
      case (Inl e)
      then show ?thesis by (simp add: audio_frame_def Text Inr)
    next
      case pl: (Inr v)
      show ?thesis
        by (cases v; cases "b64decode lib (case v of JStr p \<Rightarrow> p | _ \<Rightarrow> [])")
          (auto simp: audio_frame_def Text Inr pl)
    qed
  qed
qed (simp_all add: audio_frame_def)

text \<open>What one turn of the loop does on a frame that carries audio.\<close>

lemma step_audio_frame:
  assumes "audio_frame lib m"
  shows "\<exists>p. twilio_to_openai_step lib m s =
            Inr (Next,
                 (if cancelled_once s then [] else [ResponseCancel]) @ [Append p] @
                 (if frames_since_commit s + 1 \<ge> 6 then [Commit] else []),
                 s\<lparr>cancelled_once := True,
                   frames_since_commit :=
                     (if frames_since_commit s + 1 \<ge> 6 then 0 else frames_since_commit s + 1)\<rparr>)"
proof -
  from assms obtain data media p bs where m: "m = Text data"
    and ev: "py_get data ''event'' = Inr (JStr ''media'')"
    and md: "py_item data ''media'' = Inr media"
    and pl: "py_get media ''payload'' = Inr (JStr p)" "p \<noteq> []"
    and dc: "b64decode lib p = Inr bs" "bs \<noteq> []"
    unfolding audio_frame_iff by blast
  show ?thesis
    by (simp add: twilio_to_openai_step_def m ev md pl dc bind_err_simps Let_def
        mulaw_to_pcm16_Nil_iff TWILIO_FRAME_MS_def MIN_COMMIT_MS_def)
qed

lemma step_other:
  assumes "\<not> audio_frame lib m" and "twilio_to_openai_step lib m s = Inr (fl, ds, s')"
  shows "ds = [] \<and> frames_since_commit s' = frames_since_commit s
         \<and> cancelled_once s' = cancelled_once s"
  using assms
  by (auto simp: audio_frame_iff twilio_to_openai_step_def bind_err_Inr_iff Let_def
      mulaw_to_pcm16_Nil_iff b64decode_value_Inr
      split: inbound.splits if_splits)



lemma marks_append: "marks (xs @ ys) = marks xs @ marks ys"
  by (induction xs rule: marks.induct) simp_all

lemma appended_append: "appended (xs @ ys) = appended xs + appended ys"
  by (simp add: appended_def)

lemma commits_append: "commits (xs @ ys) = commits xs + commits ys"
  by (simp add: commits_def)

lemma cancels_append: "cancels (xs @ ys) = cancels xs + cancels ys"
  by (simp add: cancels_def)

lemma run_Cons_Next:
  assumes "twilio_to_openai_step lib m s = Inr (Next, ds1, s1)"
  shows "twilio_to_openai lib (m # ms) s =
           (fst (twilio_to_openai lib ms s1),
            ds1 @ fst (snd (twilio_to_openai lib ms s1)),
            snd (snd (twilio_to_openai lib ms s1)))"
  using assms by (simp add: case_prod_beta)

lemma run_Cons_cases:
  assumes "twilio_to_openai lib (m # ms) s = (st, ds, s')"
  obtains (crash) e where "twilio_to_openai_step lib m s = Inl e" "st = Crashed e" "ds = []" "s' = s"
  | (stop) "twilio_to_openai_step lib m s = Inr (Stop, ds, s')" "st = Stopped"
  | (go) ds1 s1 ds2 where "twilio_to_openai_step lib m s = Inr (Next, ds1, s1)"
      "twilio_to_openai lib ms s1 = (st, ds2, s')" "ds = ds1 @ ds2"
proof (cases "twilio_to_openai_step lib m s")
  case (Inl e)
  then have "twilio_to_openai lib (m # ms) s = (Crashed e, [], s)" by simp
  with assms have "st = Crashed e" "ds = []" "s' = s" by simp_all
  with Inl show ?thesis by (intro crash) simp_all
next
  case (Inr r)
  obtain fl ds1 s1 where r: "r = (fl, ds1, s1)" by (cases r)
  show ?thesis
  proof (cases fl)
    case Next
    obtain st2 ds2 s2 where run: "twilio_to_openai lib ms s1 = (st2, ds2, s2)"
      by (cases "twilio_to_openai lib ms s1")
    have step: "twilio_to_openai_step lib m s = Inr (Next, ds1, s1)"
      by (simp add: Inr r Next)
    have "twilio_to_openai lib (m # ms) s = (st2, ds1 @ ds2, s2)"
      by (simp add: step run)
    with assms have "st = st2" "ds = ds1 @ ds2" "s' = s2" by simp_all
    with step run show ?thesis by (intro go) simp_all
  next
    case Stop
    have step: "twilio_to_openai_step lib m s = Inr (Stop, ds1, s1)"
      by (simp add: Inr r Stop)
    have "twilio_to_openai lib (m # ms) s = (Stopped, ds1, s1)"
      by (simp add: step)
    with assms have "st = Stopped" "ds = ds1" "s' = s1" by simp_all
    with step show ?thesis by (intro stop) simp_all
  qed
qed

lemma step_marks:
  assumes "twilio_to_openai_step lib m s = Inr (fl, ds1, s1)"
    and "frames_since_commit s = int (k mod 6)"
  shows "marks ds1 = concat (map frame_marks [Suc k ..< Suc k + appended ds1])
         \<and> frames_since_commit s1 = int ((k + appended ds1) mod 6)"
proof (cases "audio_frame lib m")
  case True
  from step_audio_frame [OF True, of s] assms(1) obtain p where
    ds1: "ds1 = (if cancelled_once s then [] else [ResponseCancel]) @ [Append p] @
                (if frames_since_commit s + 1 \<ge> 6 then [Commit] else [])"
    and s1: "frames_since_commit s1 =
               (if frames_since_commit s + 1 \<ge> 6 then 0 else frames_since_commit s + 1)"
    by auto
  have n: "appended ds1 = 1" by (simp add: ds1 appended_def)
  have six: "frames_since_commit s + 1 \<ge> 6 \<longleftrightarrow> 6 dvd Suc k"
    using assms(2) by presburger
  have "marks ds1 = frame_marks (Suc k)"
    by (simp add: ds1 six frame_marks_def)
  moreover have "frames_since_commit s1 = int (Suc k mod 6)"
    unfolding s1 using assms(2) by presburger
  ultimately show ?thesis by (simp add: n)
next
  case False
  from step_other [OF False assms(1)] assms(2) show ?thesis
    by (simp add: appended_def)
qed

lemma run_marks:
  assumes "twilio_to_openai lib msgs s = (st, ds, s')"
    and "frames_since_commit s = int (k mod 6)"
  shows "marks ds = concat (map frame_marks [Suc k ..< Suc k + appended ds])
         \<and> frames_since_commit s' = int ((k + appended ds) mod 6)"
  using assms
proof (induction msgs arbitrary: s k st ds s')
  case Nil
  then show ?case by (simp add: appended_def)
next
  case (Cons m ms)
  from Cons.prems(1) show ?case
  proof (cases rule: run_Cons_cases)
    case (crash e)
    with Cons.prems(2) show ?thesis by (simp add: appended_def)
  next
    case stop
    from step_marks [OF stop(1) Cons.prems(2)] show ?thesis .
  next
    case (go ds1 s1 ds2)
    from step_marks [OF go(1) Cons.prems(2)]
    have a: "marks ds1 = concat (map frame_marks [Suc k ..< Suc k + appended ds1])"
      and b: "frames_since_commit s1 = int ((k + appended ds1) mod 6)" by simp_all
    from Cons.IH [OF go(2) b]
    have c: "marks ds2 = concat (map frame_marks
                [Suc (k + appended ds1) ..< Suc (k + appended ds1) + appended ds2])"
      and d: "frames_since_commit s' = int ((k + appended ds1 + appended ds2) mod 6)"
      by simp_all
    have "[Suc k ..< Suc k + (appended ds1 + appended ds2)] =
          [Suc k ..< Suc k + appended ds1] @
          [Suc k + appended ds1 ..< Suc k + appended ds1 + appended ds2]"
      by (metis upt_add_eq_append le_add1 add.assoc)
    then show ?thesis
      by (simp add: go(3) marks_append appended_append a c d add.assoc)
  qed
qed

lemma commits_marks: "commits ds = length (filter (\<lambda>m. m = Committed) (marks ds))"
  by (induction ds rule: marks.induct) (simp_all add: commits_def)

lemma count_committed:
  "length (filter (\<lambda>m. m = Committed) (concat (map frame_marks [Suc 0 ..< Suc n]))) = n div 6"
proof (induction n)
  case 0
  show ?case by simp
next
  case (Suc n)
  then show ?case by (simp add: frame_marks_def div_Suc dvd_eq_mod_eq_0  mod_Suc)
qed

section \<open>Runs of the inbound pump\<close>

lemma run_appended_Running:
  assumes "twilio_to_openai lib msgs s = (Running, ds, s')"
  shows "appended ds = length (filter (audio_frame lib) msgs)"
  using assms
proof (induction msgs arbitrary: s ds s')
  case Nil
  then show ?case by (simp add: appended_def)
next
  case (Cons m ms)
  from Cons.prems show ?case
  proof (cases rule: run_Cons_cases)
    case (go ds1 s1 ds2)
    have "appended ds1 = (if audio_frame lib m then 1 else 0)"
    proof (cases "audio_frame lib m")
      case True
      from step_audio_frame [OF True, of s] go(1) True show ?thesis
        by (auto simp: appended_def)
    next
      case False
      from step_other [OF False go(1)] False show ?thesis by (simp add: appended_def)
    qed
    with Cons.IH [OF go(2)] show ?thesis by (simp add: go(3) appended_append)
  qed simp_all
qed

lemma run_all_audio_Running:
  assumes "list_all (audio_frame lib) msgs"
  shows "fst (twilio_to_openai lib msgs s) = Running"
  using assms
proof (induction msgs arbitrary: s)
  case Nil
  show ?case by simp
next
  case (Cons m ms)
  from Cons.prems have m: "audio_frame lib m" and ms: "list_all (audio_frame lib) ms"
    by simp_all
  from step_audio_frame [OF m, of s] obtain ds1 s1 where
    "twilio_to_openai_step lib m s = Inr (Next, ds1, s1)" by blast
  then show ?case using Cons.IH [OF ms, of s1] by (simp add: case_prod_beta)
qed

lemma step_cancel:
  assumes "twilio_to_openai_step lib m s = Inr (fl, ds1, s1)"
  shows "cancelled_once s1 = (cancelled_once s \<or> appended ds1 \<ge> 1)
    \<and> (cancelled_once s \<longrightarrow> ResponseCancel \<notin> set ds1)
    \<and> (\<not> cancelled_once s \<longrightarrow> appended ds1 \<ge> 1 \<longrightarrow> (\<exists>p. ds1 = [ResponseCancel, Append p] \<or> ds1 = [ResponseCancel, Append p, Commit]))
    \<and> (appended ds1 = 0 \<longrightarrow> ds1 = [])"
proof (cases "audio_frame lib m")
  case True
  from step_audio_frame [OF True, of s] assms show ?thesis
    by (auto simp: appended_def)
next
  case False
  from step_other [OF False assms] show ?thesis by (simp add: appended_def)
qed

lemma run_flag_set:
  assumes "twilio_to_openai lib msgs s = (st, ds, s')" and "cancelled_once s"
  shows "cancelled_once s' \<and> ResponseCancel \<notin> set ds"
  using assms
proof (induction msgs arbitrary: s st ds s')
  case Nil
  then show ?case by simp
next
  case (Cons m ms)
  from Cons.prems(1) show ?case
  proof (cases rule: run_Cons_cases)
    case (crash e)
    with Cons.prems(2) show ?thesis by simp
  next
    case stop
    from step_cancel [OF stop(1)] Cons.prems(2) show ?thesis by simp
  next
    case (go ds1 s1 ds2)
    from step_cancel [OF go(1)] Cons.prems(2)
    have "cancelled_once s1" "ResponseCancel \<notin> set ds1" by simp_all
    with Cons.IH [OF go(2)] show ?thesis by (simp add: go(3))
  qed
qed

lemma run_first_frame:
  assumes "twilio_to_openai lib msgs s = (st, ds, s')" and "\<not> cancelled_once s"
  shows "(appended ds = 0 \<longrightarrow> ds = [] \<and> \<not> cancelled_once s')
    \<and> (appended ds \<ge> 1 \<longrightarrow> cancelled_once s' \<and>
          (\<exists>p rest. ds = ResponseCancel # Append p # rest \<and> ResponseCancel \<notin> set rest))"
  using assms
proof (induction msgs arbitrary: s st ds s')
  case Nil
  then show ?case by (simp add: appended_def)
next
  case (Cons m ms)
  from Cons.prems(1) show ?case
  proof (cases rule: run_Cons_cases)
    case (crash e)
    with Cons.prems(2) show ?thesis by (simp add: appended_def)
  next
    case stop
    from step_cancel [OF stop(1)] Cons.prems(2) show ?thesis
      by (cases "appended ds") auto
  next
    case (go ds1 s1 ds2)
    note sc = step_cancel [OF go(1)]
    show ?thesis
    proof (cases "appended ds1")
      case 0
      with sc Cons.prems(2) have "ds1 = []" "\<not> cancelled_once s1" by simp_all
      with Cons.IH [OF go(2)] show ?thesis by (simp add: go(3))
    next
      case (Suc n)
      with sc Cons.prems(2) obtain p where
        ds1: "ds1 = [ResponseCancel, Append p] \<or> ds1 = [ResponseCancel, Append p, Commit]"
        and s1: "cancelled_once s1" by auto
      from run_flag_set [OF go(2) s1] have "cancelled_once s'" "ResponseCancel \<notin> set ds2"
        by simp_all
      with ds1 show ?thesis by (auto simp: go(3) appended_def)
    qed
  qed
qed

lemma cancels_0_iff: "cancels ds = 0 \<longleftrightarrow> ResponseCancel \<notin> set ds"
  by (induction ds) (auto simp: cancels_def)

lemma step_event_stop:
  assumes "event_is ''stop'' m"
  shows "twilio_to_openai_step lib m s = Inr (Stop, [], s)"
  using assms
  by (auto simp: event_is_def twilio_to_openai_step_def bind_err_simps split: inbound.splits)

lemma run_append_Running:
  assumes "twilio_to_openai lib pre s = (Running, ds, s1)"
  shows "twilio_to_openai lib (pre @ rest) s =
           (fst (twilio_to_openai lib rest s1),
            ds @ fst (snd (twilio_to_openai lib rest s1)),
            snd (snd (twilio_to_openai lib rest s1)))"
  using assms
proof (induction pre arbitrary: s ds s1)
  case Nil
  then show ?case by simp
next
  case (Cons m ms)
  from Cons.prems show ?case
  proof (cases rule: run_Cons_cases)
    case (go ds1 s2 ds2)
    from Cons.IH [OF go(2)] go(1) show ?thesis
      by (simp add: go(3) case_prod_beta)
  qed simp_all
qed

lemma run_append_finished:
  assumes "twilio_to_openai lib pre s = (st, ds, s1)" and "st \<noteq> Running"
  shows "twilio_to_openai lib (pre @ rest) s = (st, ds, s1)"
  using assms
proof (induction pre arbitrary: s ds s1)
  case Nil
  then show ?case by simp
next
  case (Cons m ms)
  from Cons.prems(1) show ?case
  proof (cases rule: run_Cons_cases)
    case (crash e)
    then show ?thesis by simp
  next
    case stop
    then show ?thesis by simp
  next
    case (go ds1 s2 ds2)
    from Cons.IH [OF go(2) Cons.prems(2)] go(1) show ?thesis
      by (simp add: go(3) case_prod_beta)
  qed
qed

lemma tail_frames:
  "takeWhile (\<lambda>m. m = Frame) (rev (concat (map frame_marks [Suc 0 ..< Suc n])))
     = replicate (n mod 6) Frame"
proof (induction n)
  case 0
  show ?case by simp
next
  case (Suc n)
  show ?case
  proof (cases "6 dvd Suc n")
    case True
    then show ?thesis by (simp add: frame_marks_def)
  next
    case False
    then have "Suc n mod 6 = Suc (n mod 6)" by presburger
    with False Suc show ?thesis by (simp add: frame_marks_def)
  qed
qed

lemma last_marks:
  "ds \<noteq> [] \<Longrightarrow> last ds = Commit \<Longrightarrow> marks ds \<noteq> [] \<and> last (marks ds) = Committed"
  by (induction ds rule: marks.induct) (auto split: if_splits)

lemma last_pattern:
  assumes "concat (map frame_marks [Suc 0 ..< Suc n]) \<noteq> []"
    and "last (concat (map frame_marks [Suc 0 ..< Suc n])) = Committed"
  shows "6 dvd n"
proof (cases n)
  case 0
  with assms show ?thesis by simp
next
  case (Suc k)
  with assms(2) show ?thesis by (simp add: frame_marks_def split: if_splits)
qed

lemma commit_threshold: "\<lceil>real_of_int MIN_COMMIT_MS / real_of_int TWILIO_FRAME_MS\<rceil> = 6"
  by (simp add: MIN_COMMIT_MS_def TWILIO_FRAME_MS_def)

text \<open>
  C1. With 20 ms per frame and a minimum of 120 ms, that is 6 frames: in every run of the
  inbound pump from the initial session, the appends and commits sent upstream are those
  of frames 1, 2, 3, ... with a commit after every sixth frame and nowhere else; the number
  of commits is the number of frames appended divided by 6; the counter is the number of
  frames appended modulo 6, so it is never negative, it is zero when the last directive
  sent is a commit, and no commit follows an empty accumulation. The frames appended are
  the media frames that carry audio: while the pump runs, their number is the number of
  such messages received.
\<close>

theorem commit_every_six_frames:
  assumes "twilio_to_openai lib msgs init_session = (st, ds, s)"
  shows "\<lceil>real_of_int MIN_COMMIT_MS / real_of_int TWILIO_FRAME_MS\<rceil> = 6
    \<and> marks ds = concat (map frame_marks [1 ..< Suc (appended ds)])
    \<and> commits ds = appended ds div 6
    \<and> frames_since_commit s = int (appended ds mod 6)
    \<and> (ds \<noteq> [] \<and> last ds = Commit \<longrightarrow> frames_since_commit s = 0)
    \<and> (st = Running \<longrightarrow> appended ds = length (filter (audio_frame lib) msgs))"
proof -
  have "frames_since_commit init_session = int (0 mod 6)"
    by (simp add: init_session_def)
  from run_marks [OF assms this]
  have m: "marks ds = concat (map frame_marks [Suc 0 ..< Suc (appended ds)])"
    and c: "frames_since_commit s = int (appended ds mod 6)" by simp_all
  have k: "commits ds = appended ds div 6"
    by (simp only: commits_marks m count_committed)
  have z: "frames_since_commit s = 0" if "ds \<noteq> []" "last ds = Commit"
  proof -
    from last_marks [OF that]
    have "concat (map frame_marks [Suc 0 ..< Suc (appended ds)]) \<noteq> []
      \<and> last (concat (map frame_marks [Suc 0 ..< Suc (appended ds)])) = Committed"
      unfolding m .
    then have "6 dvd appended ds" using last_pattern by blast
    with c show ?thesis by simp
  qed
  have r: "appended ds = length (filter (audio_frame lib) msgs)" if "st = Running"
    using assms that by (intro run_appended_Running [of lib msgs init_session ds s]) simp
  from m c k z r commit_threshold show ?thesis by simp
qed

lemma b64_decode_AA: "b64_decode_text ''AA=='' = Inr [0]"
  by (simp add: b64_value_def b64_alphabet_def)

lemma b64_decode_w: "b64_decode_text ''/w=='' = Inr [255]"
  by (simp add: b64_value_def b64_alphabet_def)

lemma audio_frame_media_event:
  "audio_frame base64_lib (media_event ''AA=='')" "audio_frame base64_lib (media_event ''/w=='')"
  by (simp_all add: audio_frame_def media_event_def base64_lib_def b64_decode_AA b64_decode_w
      del: b64_decode_text.simps)

lemma seven_frames_Running: "fst (twilio_to_openai base64_lib seven_frames init_session) = Running"
  by (rule run_all_audio_Running) (simp add: seven_frames_def audio_frame_media_event)

theorem commit_every_six_frames_witness:
  "marks (fst (snd (twilio_to_openai base64_lib seven_frames init_session)))
     = [Frame, Frame, Frame, Frame, Frame, Frame, Committed, Frame]
   \<and> commits (fst (snd (twilio_to_openai base64_lib seven_frames init_session))) = 1
   \<and> frames_since_commit (snd (snd (twilio_to_openai base64_lib seven_frames init_session))) = 1"
proof -
  let ?r = "twilio_to_openai base64_lib seven_frames init_session"
  have run: "?r = (fst ?r, fst (snd ?r), snd (snd ?r))" by simp
  have "length (filter (audio_frame base64_lib) seven_frames) = 7"
    by (simp add: seven_frames_def audio_frame_media_event)
  with commit_every_six_frames [OF run] seven_frames_Running
  have n: "appended (fst (snd ?r)) = 7" by simp
  have "concat (map frame_marks [1 ..< Suc 7])
     = [Frame, Frame, Frame, Frame, Frame, Frame, Committed, Frame]"
    by code_simp
  with commit_every_six_frames [OF run] n show ?thesis by simp
qed

text \<open>
  C2. In every run of the inbound pump from the initial session (the greeting has been
  requested, the flag is false): exactly one cancellation is sent when at least one frame
  was appended and none otherwise, however many frames there are; the cancellation is the
  first directive of the pump, sent right before the append of the first frame that carries
  audio; a run of \<open>N\<close> frames that carry audio appends \<open>N\<close> frames; and from
  any session whose flag is set, whatever arrives later, the flag stays set and no
  cancellation is sent again.
\<close>

theorem barge_in_once:
  assumes "twilio_to_openai lib msgs init_session = (st, ds, s)"
  shows "cancels ds = (if appended ds \<ge> 1 then 1 else 0)
    \<and> cancelled_once s = (appended ds \<ge> 1)
    \<and> (appended ds \<ge> 1 \<longrightarrow>
          (\<exists>p rest. ds = ResponseCancel # Append p # rest \<and> ResponseCancel \<notin> set rest))
    \<and> (list_all (audio_frame lib) msgs \<longrightarrow> appended ds = length msgs)
    \<and> (cancelled_once s \<and> twilio_to_openai lib later s = (st', ds', s')
          \<longrightarrow> cancelled_once s' \<and> cancels ds' = 0)"
proof -
  have i: "\<not> cancelled_once init_session" by (simp add: init_session_def)
  note ff = run_first_frame [OF assms i]
  have a: "cancels ds = (if appended ds \<ge> 1 then 1 else 0)"
  proof (cases "appended ds")
    case 0
    with ff show ?thesis by (simp add: cancels_def)
  next
    case (Suc n)
    with ff obtain p rest where "ds = ResponseCancel # Append p # rest"
      "ResponseCancel \<notin> set rest" by auto
    then have "cancels ds = 1 + cancels rest" by (simp add: cancels_def)
    with \<open>ResponseCancel \<notin> set rest\<close> Suc show ?thesis by (simp add: cancels_0_iff)
  qed
  have b: "cancelled_once s = (appended ds \<ge> 1)"
    using ff by (cases "appended ds") simp_all
  have c: "appended ds = length msgs" if all: "list_all (audio_frame lib) msgs"
  proof -
    from run_all_audio_Running [OF all, of init_session] assms
    have "twilio_to_openai lib msgs init_session = (Running, ds, s)" by simp
    from run_appended_Running [OF this] all show ?thesis
      by (simp add: list_all_iff)
  qed
  have d: "cancelled_once s' \<and> cancels ds' = 0"
    if "cancelled_once s" "twilio_to_openai lib later s = (st', ds', s')"
    using run_flag_set [OF that(2) that(1)] by (simp add: cancels_0_iff)
  from a b c d ff show ?thesis by simp
qed

lemma frame_payloads:
  "b64_encode_bytes (tobytes_int16 (upsample_8k_to_24k (mulaw_to_pcm16 [0]))) = ''/3//f/9/''"
  "b64_encode_bytes (tobytes_int16 (upsample_8k_to_24k (mulaw_to_pcm16 [255]))) = ''AIAAgACA''"
  by (simp_all add: mulaw_to_pcm16_def mulaw_expand_0 mulaw_expand_255 upsample_8k_to_24k_def
      tobytes_int16_def b64_char_def b64_alphabet_def numeral_3_eq_3)

lemma two_frames_run:
  "twilio_to_openai base64_lib two_frames init_session =
     (Running,
      [ResponseCancel, Append ''/3//f/9/'', Append ''AIAAgACA''],
      \<lparr>frames_since_commit = 2, stream_sid = JStr ''CA123'', cancelled_once = True\<rparr>)"
  by (simp add: two_frames_def start_event_def media_event_def base64_lib_def
      twilio_to_openai_step_def bind_err_simps init_session_def Let_def
      b64_decode_AA b64_decode_w frame_payloads
      mulaw_to_pcm16_Nil_iff TWILIO_FRAME_MS_def MIN_COMMIT_MS_def
      del: b64_decode_text.simps)

theorem barge_in_once_witness:
  "cancels [ResponseCancel, Append ''/3//f/9/'', Append ''AIAAgACA''] = 1
   \<and> cancels (fst (snd (twilio_to_openai base64_lib [media_event ''AA=='']
        \<lparr>frames_since_commit = 2, stream_sid = JStr ''CA123'', cancelled_once = True\<rparr>))) = 0"
proof -
  let ?s = "\<lparr>frames_since_commit = 2, stream_sid = JStr ''CA123'', cancelled_once = True\<rparr>"
  let ?r = "twilio_to_openai base64_lib [media_event ''AA==''] ?s"
  have later: "?r = (fst ?r, fst (snd ?r), snd (snd ?r))" by simp
  from barge_in_once [OF two_frames_run, of "[media_event ''AA=='']" "fst ?r" "fst (snd ?r)" "snd (snd ?r)"]
    later
  show ?thesis by (simp add: appended_def)
qed

text \<open>
  C10. When a stop event arrives while the pump runs and the counter is not zero (between
  1 and 5 frames were appended since the last commit), the pump stops and sends nothing:
  whatever messages follow, the directives sent are those sent before the stop event, the
  counter keeps its value, and the trace ends with that many appended frames that no
  commit follows.
\<close>

theorem stop_leaves_frames_uncommitted:
  assumes "twilio_to_openai lib pre init_session = (Running, ds, s)"
    and "frames_since_commit s \<noteq> 0"
    and "event_is ''stop'' m"
  shows "twilio_to_openai lib (pre @ m # post) init_session = (Stopped, ds, s)
    \<and> 0 < frames_since_commit s \<and> frames_since_commit s < 6
    \<and> takeWhile (\<lambda>k. k = Frame) (rev (marks ds))
         = replicate (nat (frames_since_commit s)) Frame"
proof -
  have "twilio_to_openai lib (m # post) s = (Stopped, [], s)"
    by (simp add: step_event_stop [OF assms(3)])
  with run_append_Running [OF assms(1), of "m # post"]
  have a: "twilio_to_openai lib (pre @ m # post) init_session = (Stopped, ds, s)"
    by simp
  have "frames_since_commit init_session = int (0 mod 6)"
    by (simp add: init_session_def)
  from run_marks [OF assms(1) this]
  have m: "marks ds = concat (map frame_marks [Suc 0 ..< Suc (appended ds)])"
    and c: "frames_since_commit s = int (appended ds mod 6)" by simp_all
  from c assms(2) have b: "0 < frames_since_commit s \<and> frames_since_commit s < 6"
    by simp
  have "takeWhile (\<lambda>k. k = Frame) (rev (marks ds)) = replicate (appended ds mod 6) Frame"
    unfolding m by (rule tail_frames)
  with a b c show ?thesis by simp
qed

theorem stop_leaves_frames_uncommitted_witness:
  "twilio_to_openai base64_lib (two_frames @ stop_event # [media_event ''AA=='']) init_session =
     (Stopped,
      [ResponseCancel, Append ''/3//f/9/'', Append ''AIAAgACA''],
      \<lparr>frames_since_commit = 2, stream_sid = JStr ''CA123'', cancelled_once = True\<rparr>)"
proof -
  have "event_is ''stop'' stop_event" by (simp add: event_is_def stop_event_def)
  from stop_leaves_frames_uncommitted [OF two_frames_run _ this, of "[media_event ''AA=='']"]
  show ?thesis by simp
qed

section \<open>Malformed events, the outbound pump and the handler\<close>

lemma step_unknown_kind:
  assumes "py_get data ''event'' = Inr ev"
    and "ev \<noteq> JStr ''connected''" "ev \<noteq> JStr ''start''" "ev \<noteq> JStr ''stop''" "ev \<noteq> JStr ''media''"
  shows "twilio_to_openai_step lib (Text data) s = Inr (Next, [], s)"
  using assms by (simp add: twilio_to_openai_step_def bind_err_simps)

lemma step_no_payload:
  assumes "py_get data ''event'' = Inr (JStr ''media'')"
    and "py_item data ''media'' = Inr media"
    and "py_get media ''payload'' = Inr pl" and "\<not> truthy pl"
  shows "twilio_to_openai_step lib (Text data) s = Inr (Next, [], s)"
  using assms by (simp add: twilio_to_openai_step_def bind_err_simps)

lemma step_empty_audio:
  assumes "py_get data ''event'' = Inr (JStr ''media'')"
    and "py_item data ''media'' = Inr media"
    and "py_get media ''payload'' = Inr (JStr p)" and "b64decode lib p = Inr []"
  shows "twilio_to_openai_step lib (Text data) s = Inr (Next, [], s)"
  using assms by (simp add: twilio_to_openai_step_def bind_err_simps mulaw_to_pcm16_def)

lemma step_start_no_sid:
  assumes "py_get data ''event'' = Inr (JStr ''start'')"
    and "py_item data ''start'' = Inl e \<or> (py_item data ''start'' = Inr st \<and> py_item st ''streamSid'' = Inl e)"
  shows "twilio_to_openai_step lib (Text data) s = Inl e"
  using assms by (auto simp add: twilio_to_openai_step_def bind_err_simps)

lemma run_dropped:
  assumes "twilio_to_openai_step lib m s = Inr (Next, [], s)"
  shows "twilio_to_openai lib (m # rest) s = twilio_to_openai lib rest s"
  using assms by (simp add: case_prod_beta)

lemma run_crash:
  assumes "twilio_to_openai_step lib m s = Inl e"
  shows "twilio_to_openai lib (m # rest) s = (Crashed e, [], s)"
  using assms by simp

text \<open>
  C3. The claim (every event that is not well formed is ignored and none ends the session)
  against the code, at three events each followed by a frame that carries audio. A media
  event whose media object holds no payload is dropped and the frame after it is
  appended, as the claim says. A media event with no media object, and a start event
  whose start object holds no stream identifier, are not dropped: the subscript raises
  \<^verbatim>\<open>KeyError\<close>, the pump ends with nothing sent and the frame unread, and the handler
  prints the error and returns.
\<close>

theorem malformed_event_ends_session:
  "twilio_to_openai base64_lib
     [Text (JObj [(''event'', JStr ''media''), (''media'', JObj [])]), media_event ''AA=='']
     init_session
     = (Running, [ResponseCancel, Append ''/3//f/9/''],
        \<lparr>frames_since_commit = 1, stream_sid = JNull, cancelled_once = True\<rparr>)
   \<and> twilio_to_openai base64_lib
     [Text (JObj [(''event'', JStr ''media'')]), media_event ''AA=='']
     init_session = (Crashed KeyError, [], init_session)
   \<and> twilio_to_openai base64_lib
     [Text (JObj [(''event'', JStr ''start''), (''start'', JObj [])]), media_event ''AA=='']
     init_session = (Crashed KeyError, [], init_session)
   \<and> media_stream base64_lib (Some ''sk'') True
     [Text (JObj [(''event'', JStr ''media'')]), media_event ''AA=='']
     = [WsAccept, OaConnect, OaSend SessionUpdate, OaSend ResponseCreate, Pumps, PrintError, Return]
   \<and> media_stream base64_lib (Some ''sk'') True
     [Text (JObj [(''event'', JStr ''start''), (''start'', JObj [])]), media_event ''AA=='']
     = [WsAccept, OaConnect, OaSend SessionUpdate, OaSend ResponseCreate, Pumps, PrintError, Return]"
  by (simp add: twilio_to_openai_step_def bind_err_simps media_stream_def key_present_def
      media_event_def base64_lib_def init_session_def Let_def b64_decode_AA frame_payloads
      mulaw_to_pcm16_Nil_iff TWILIO_FRAME_MS_def MIN_COMMIT_MS_def
      del: b64_decode_text.simps)

text \<open>
  The turns of the inbound loop on events that are not well formed, case by case: which
  events the pump drops before it goes on with the next one, and on which the subscript
  raises.
\<close>

lemma malformed_events_dropped_or_fatal:
  "(py_get data ''event'' = Inr ev
      \<and> ev \<notin> {JStr ''connected'', JStr ''start'', JStr ''stop'', JStr ''media''}
      \<longrightarrow> twilio_to_openai lib (Text data # rest) s = twilio_to_openai lib rest s)
   \<and> (py_get data ''event'' = Inr (JStr ''media'') \<and> py_item data ''media'' = Inr media
      \<and> py_get media ''payload'' = Inr pl
      \<and> (\<not> truthy pl \<or> (\<exists>p. pl = JStr p \<and> b64decode lib p = Inr []))
      \<longrightarrow> twilio_to_openai lib (Text data # rest) s = twilio_to_openai lib rest s)
   \<and> (py_get data ''event'' = Inr (JStr ''start'')
      \<and> (py_item data ''start'' = Inl e
          \<or> (py_item data ''start'' = Inr st \<and> py_item st ''streamSid'' = Inl e))
      \<longrightarrow> twilio_to_openai lib (Text data # rest) s = (Crashed e, [], s))
   \<and> (key_present api_key \<and> twilio_to_openai lib msgs init_session = (Crashed e, ds, s')
      \<longrightarrow> media_stream lib api_key True msgs =
            [WsAccept, OaConnect, OaSend SessionUpdate, OaSend ResponseCreate, Pumps]
            @ map OaSend ds @ [PrintError, Return])"
proof -
  have a: "twilio_to_openai lib (Text data # rest) s = twilio_to_openai lib rest s"
    if "py_get data ''event'' = Inr ev"
      "ev \<notin> {JStr ''connected'', JStr ''start'', JStr ''stop'', JStr ''media''}"
    using that by (intro run_dropped step_unknown_kind [of data ev]) simp_all
  have b: "twilio_to_openai lib (Text data # rest) s = twilio_to_openai lib rest s"
    if "py_get data ''event'' = Inr (JStr ''media'')" "py_item data ''media'' = Inr media"
      "py_get media ''payload'' = Inr pl"
      "\<not> truthy pl \<or> (\<exists>p. pl = JStr p \<and> b64decode lib p = Inr [])"
  proof (cases "truthy pl")
    case False
    from step_no_payload [OF that(1-3) False] show ?thesis by (rule run_dropped)
  next
    case True
    with that(4) obtain p where "pl = JStr p" "b64decode lib p = Inr []" by blast
    with that(3) have "twilio_to_openai_step lib (Text data) s = Inr (Next, [], s)"
      by (intro step_empty_audio [OF that(1,2)]) simp_all
    then show ?thesis by (rule run_dropped)
  qed
  have c: "twilio_to_openai lib (Text data # rest) s = (Crashed e, [], s)"
    if "py_get data ''event'' = Inr (JStr ''start'')"
      "py_item data ''start'' = Inl e
        \<or> (py_item data ''start'' = Inr st \<and> py_item st ''streamSid'' = Inl e)"
    using step_start_no_sid [OF that] by (rule run_crash)
  have d: "media_stream lib api_key True msgs =
            [WsAccept, OaConnect, OaSend SessionUpdate, OaSend ResponseCreate, Pumps]
            @ map OaSend ds @ [PrintError, Return]"
    if "key_present api_key" "twilio_to_openai lib msgs init_session = (Crashed e, ds, s')"
    using that by (simp add: media_stream_def)
  from a b c d show ?thesis by blast
qed

lemma malformed_events_dropped_or_fatal_instances:
  "twilio_to_openai base64_lib (Text (JObj [(''event'', JStr ''mark'')]) # two_frames) init_session
     = twilio_to_openai base64_lib two_frames init_session
   \<and> twilio_to_openai base64_lib
       (Text (JObj [(''event'', JStr ''media''), (''media'', JObj [])]) # two_frames) init_session
     = twilio_to_openai base64_lib two_frames init_session
   \<and> twilio_to_openai base64_lib
       (Text (JObj [(''event'', JStr ''start''), (''start'', JObj [])]) # two_frames) init_session
     = (Crashed KeyError, [], init_session)"
proof -
  note t = malformed_events_dropped_or_fatal
  have 1: "twilio_to_openai base64_lib (Text (JObj [(''event'', JStr ''mark'')]) # two_frames) init_session
     = twilio_to_openai base64_lib two_frames init_session"
    using t [of "JObj [(''event'', JStr ''mark'')]" "JStr ''mark''" base64_lib two_frames init_session]
    by simp
  have 2: "twilio_to_openai base64_lib
       (Text (JObj [(''event'', JStr ''media''), (''media'', JObj [])]) # two_frames) init_session
     = twilio_to_openai base64_lib two_frames init_session"
    using t [of "JObj [(''event'', JStr ''media''), (''media'', JObj [])]" _ base64_lib two_frames
        init_session "JObj []" JNull]
    by simp
  have 3: "twilio_to_openai base64_lib
       (Text (JObj [(''event'', JStr ''start''), (''start'', JObj [])]) # two_frames) init_session
     = (Crashed KeyError, [], init_session)"
    using t [of "JObj [(''event'', JStr ''start''), (''start'', JObj [])]" _ base64_lib two_frames
        init_session _ _ KeyError "JObj []"]
    by simp
  from 1 2 3 show ?thesis by simp
qed


lemma step_keeps_sid:
  assumes "twilio_to_openai_step lib m s = Inr (fl, ds1, s1)" and "\<not> event_is ''start'' m"
  shows "stream_sid s1 = stream_sid s"
  using assms
  by (auto simp: twilio_to_openai_step_def event_is_def bind_err_Inr_iff Let_def
      split: inbound.splits if_splits)

lemma run_keeps_sid:
  assumes "twilio_to_openai lib msgs s = (st, ds, s')"
    and "list_all (\<lambda>m. \<not> event_is ''start'' m) msgs"
  shows "stream_sid s' = stream_sid s"
  using assms
proof (induction msgs arbitrary: s st ds s')
  case Nil
  then show ?case by simp
next
  case (Cons m ms)
  from Cons.prems(2) have m: "\<not> event_is ''start'' m"
    and ms: "list_all (\<lambda>m. \<not> event_is ''start'' m) ms" by simp_all
  from Cons.prems(1) show ?case
  proof (cases rule: run_Cons_cases)
    case (crash e)
    then show ?thesis by simp
  next
    case stop
    from step_keeps_sid [OF stop(1) m] show ?thesis .
  next
    case (go ds1 s1 ds2)
    from step_keeps_sid [OF go(1) m] Cons.IH [OF go(2) ms] show ?thesis by simp
  qed
qed

lemma outbound_needs_sid:
  assumes "\<not> truthy sid"
  shows "openai_to_twilio_step lib msg sid \<noteq> Inr (Some out)"
  using assms
  by (auto simp: openai_to_twilio_step_def bind_err_Inr_iff Let_def
      split: oa_message.splits if_splits)

lemma outbound_delta:
  assumes "py_get evt ''type'' = Inr (JStr ''response.audio.delta'')"
    and "py_item evt ''audio'' = Inr (JStr a)" and "b64decode lib a = Inr raw"
    and "frombuffer_int16 raw = Inr pcm24"
  shows "openai_to_twilio_step lib (OaText evt) sid =
     (if truthy sid \<and> pcm16_to_mulaw (downsample_24k_to_8k pcm24) \<noteq> []
      then Inr (Some (Media sid (b64encode lib (pcm16_to_mulaw (downsample_24k_to_8k pcm24)))))
      else Inr None)"
  using assms by (simp add: openai_to_twilio_step_def bind_err_simps Let_def)

text \<open>
  C7. As long as the inbound pump has handled no start event, the stream identifier is
  unset, and then no message from the AI socket makes the outbound pump send a media
  event; a well-formed audio delta is dropped without an error. Whatever the identifier,
  a well-formed delta is sent on exactly when the identifier is set and the converted
  payload is not empty, and the converted payload is empty exactly when the delta holds
  fewer than three samples.
\<close>

theorem no_outbound_before_start:
  assumes "twilio_to_openai lib msgs init_session = (st, ds, s)"
    and "list_all (\<lambda>m. \<not> event_is ''start'' m) msgs"
  shows "stream_sid s = JNull
    \<and> openai_to_twilio_step lib msg (stream_sid s) \<noteq> Inr (Some out)
    \<and> (py_get evt ''type'' = Inr (JStr ''response.audio.delta'')
        \<and> py_item evt ''audio'' = Inr (JStr a) \<and> b64decode lib a = Inr raw
        \<and> frombuffer_int16 raw = Inr pcm24
       \<longrightarrow> openai_to_twilio_step lib (OaText evt) (stream_sid s) = Inr None
         \<and> (pcm16_to_mulaw (downsample_24k_to_8k pcm24) = [] \<longleftrightarrow> length pcm24 < 3)
         \<and> openai_to_twilio_step lib (OaText evt) sid =
             (if truthy sid \<and> pcm16_to_mulaw (downsample_24k_to_8k pcm24) \<noteq> []
              then Inr (Some (Media sid
                     (b64encode lib (pcm16_to_mulaw (downsample_24k_to_8k pcm24)))))
              else Inr None))"
proof -
  from run_keeps_sid [OF assms] have sid: "stream_sid s = JNull"
    by (simp add: init_session_def)
  then have f: "\<not> truthy (stream_sid s)" by simp
  note a = outbound_needs_sid [OF f, of lib msg out]
  have b: "openai_to_twilio_step lib (OaText evt) (stream_sid s) = Inr None
         \<and> (pcm16_to_mulaw (downsample_24k_to_8k pcm24) = [] \<longleftrightarrow> length pcm24 < 3)
         \<and> openai_to_twilio_step lib (OaText evt) sid =
             (if truthy sid \<and> pcm16_to_mulaw (downsample_24k_to_8k pcm24) \<noteq> []
              then Inr (Some (Media sid
                     (b64encode lib (pcm16_to_mulaw (downsample_24k_to_8k pcm24)))))
              else Inr None)"
    if "py_get evt ''type'' = Inr (JStr ''response.audio.delta'')"
      "py_item evt ''audio'' = Inr (JStr a)" "b64decode lib a = Inr raw"
      "frombuffer_int16 raw = Inr pcm24"
    using outbound_delta [OF that] f converted_empty_iff [of pcm24] by simp
  from sid a b show ?thesis by blast
qed

theorem no_outbound_before_start_witness:
  "openai_to_twilio_step base64_lib early_delta
     (stream_sid (snd (snd (twilio_to_openai base64_lib
        [Text (JObj [(''event'', JStr ''connected'')]), media_event ''AA==''] init_session)))) = Inr None"
proof -
  let ?msgs = "[Text (JObj [(''event'', JStr ''connected'')]), media_event ''AA=='']"
  let ?r = "twilio_to_openai base64_lib ?msgs init_session"
  let ?evt = "JObj [(''type'', JStr ''response.audio.delta''), (''audio'', JStr ''AQIDBAUG'')]"
  let ?raw = "[1, 2, 3, 4, 5, 6] :: byte list"
  have run: "?r = (fst ?r, fst (snd ?r), snd (snd ?r))" by simp
  have ns: "list_all (\<lambda>m. \<not> event_is ''start'' m) ?msgs"
    by (simp add: event_is_def media_event_def)
  obtain pcm24 where fb: "frombuffer_int16 ?raw = Inr pcm24"
    by (simp add: bind_err_simps)
  have dec: "b64decode base64_lib ''AQIDBAUG'' = Inr ?raw"
    by (simp add: base64_lib_def b64_value_def b64_alphabet_def bind_err_simps)
  from no_outbound_before_start [OF run ns, of _ _ ?evt "''AQIDBAUG''" ?raw pcm24] fb dec
  show ?thesis by (simp add: early_delta_def)
qed


lemma step_no_session_update:
  assumes "twilio_to_openai_step lib m s = Inr (fl, ds1, s1)"
  shows "SessionUpdate \<notin> set ds1"
proof (cases "audio_frame lib m")
  case True
  from step_audio_frame [OF True, of s] assms show ?thesis
    by (auto split: if_splits)
next
  case False
  from step_other [OF False assms] show ?thesis by simp
qed

lemma run_no_session_update:
  assumes "twilio_to_openai lib msgs s = (st, ds, s')"
  shows "SessionUpdate \<notin> set ds"
  using assms
proof (induction msgs arbitrary: s st ds s')
  case Nil
  then show ?case by simp
next
  case (Cons m ms)
  from Cons.prems show ?case
  proof (cases rule: run_Cons_cases)
    case (crash e)
    then show ?thesis by simp
  next
    case stop
    from step_no_session_update [OF stop(1)] show ?thesis .
  next
    case (go ds1 s1 ds2)
    from step_no_session_update [OF go(1)] Cons.IH [OF go(2)] show ?thesis
      by (simp add: go(3))
  qed
qed

lemma sent_append: "sent (as @ bs) = sent as @ sent bs"
  by (induction as rule: sent.induct) simp_all

lemma sent_map_OaSend: "sent (map OaSend ds) = ds"
  by (induction ds) simp_all

lemma sent_media_stream:
  assumes "key_present api_key" and "connect_ok"
  shows "sent (media_stream lib api_key connect_ok msgs) =
           SessionUpdate # ResponseCreate # fst (snd (twilio_to_openai lib msgs init_session))"
proof -
  obtain st ds s where r: "twilio_to_openai lib msgs init_session = (st, ds, s)"
    by (cases "twilio_to_openai lib msgs init_session")
  have "sent (case st of Crashed e \<Rightarrow> [PrintError, Return] | _ \<Rightarrow> []) = []"
    by (cases st) simp_all
  with assms show ?thesis
    by (simp add: media_stream_def r sent_append sent_map_OaSend)
qed

text \<open>
  C9. In a session whose upstream connection was opened (the credential is present and the
  connection attempt succeeds), the directives sent upstream start with the session
  configuration, which does not occur again: it is sent exactly once and before every
  append.
\<close>

theorem session_update_once_and_first:
  assumes "key_present api_key" and "connect_ok"
  shows "(\<exists>rest. sent (media_stream lib api_key connect_ok msgs) = SessionUpdate # rest
            \<and> SessionUpdate \<notin> set rest)
    \<and> length (filter (\<lambda>d. d = SessionUpdate) (sent (media_stream lib api_key connect_ok msgs))) = 1"
proof -
  let ?ds = "fst (snd (twilio_to_openai lib msgs init_session))"
  have "twilio_to_openai lib msgs init_session =
      (fst (twilio_to_openai lib msgs init_session), ?ds,
       snd (snd (twilio_to_openai lib msgs init_session)))" by simp
  from run_no_session_update [OF this] have n: "SessionUpdate \<notin> set ?ds" .
  then have "filter (\<lambda>d. d = SessionUpdate) ?ds = []"
    by (auto simp: filter_empty_conv)
  with n show ?thesis by (simp add: sent_media_stream [OF assms])
qed

theorem session_update_once_and_first_witness:
  "length (filter (\<lambda>d. d = SessionUpdate)
     (sent (media_stream base64_lib (Some ''sk'') True two_frames))) = 1"
proof -
  have "key_present (Some ''sk'')" by (simp add: key_present_def)
  from session_update_once_and_first [OF this, of True base64_lib two_frames]
  show ?thesis by simp
qed

text \<open>
  C8. The handler on the two setup failures. When the connection attempt fails it accepts,
  tries to connect, prints the error and returns without a call of \<^verbatim>\<open>ws.close()\<close>;
  when the credential is absent or empty it accepts, prints, closes the telephony socket
  and returns. On both paths the pumps never start and nothing is sent to either socket.
\<close>

theorem setup_failure_traces:
  "media_stream lib (Some ''sk'') False msgs = [WsAccept, OaConnect, PrintError, Return]
   \<and> WsClose \<notin> set (media_stream lib (Some ''sk'') False msgs)
   \<and> media_stream lib None connect_ok msgs = [WsAccept, PrintError, WsClose, Return]
   \<and> media_stream lib (Some []) connect_ok msgs = [WsAccept, PrintError, WsClose, Return]"
  by (simp add: media_stream_def key_present_def)

end
